theory Spec2Isabelle
  imports Main
begin

section \<open>The execution core of Workload Automation (wlauto/core/execution.py)\<close>

text \<open>
  The module drives a queue of jobs through a device. Everything it does is sequential
  and synchronous, so the model is a state record threaded through functions, with the
  exceptions of the source as values.
\<close>

subsection \<open>Statuses, exceptions, signals, external calls\<close>

text \<open>
  Modelled from the spec: \<open>IterationResult\<close> is declared in \<open>wlauto.core.result\<close>,
  which is not part of the sources at hand. Its statuses are the seven of the data
  model, and \<open>NOT_STARTED\<close> is the pre-start sentinel a fresh result carries.
\<close>

datatype status = NOT_STARTED | RUNNING | OK | PARTIAL | NONCRITICAL | FAILED | ABORTED | SKIPPED

text \<open>
  The exception classes the handlers of the module tell apart. \<open>KeyboardInterrupt\<close> is
  not an \<open>Exception\<close>; \<open>DeviceError\<close>, \<open>ConfigError\<close>, \<open>InstrumentError\<close> and
  \<open>DeviceNotRespondingError\<close> are \<open>WAError\<close>s; \<open>AttributeError\<close>, \<open>IndexError\<close>,
  \<open>TypeError\<close> and \<open>ValueError\<close> are what Python raises on \<open>None.attr\<close>,
  \<open>[].pop(0)\<close>, \<open>path.startswith(None)\<close> and a refused artifact path;
  \<open>OtherException\<close> stands for every other subclass of \<open>Exception\<close>.
\<close>

datatype exn =
    KeyboardInterrupt
  | DeviceNotRespondingError
  | DeviceError
  | ConfigError
  | InstrumentError
  | WAError
  | TimeoutError
  | AttributeError
  | IndexError
  | ValueError
  | TypeError
  | OtherException

fun is_Exception :: "exn \<Rightarrow> bool" where
  "is_Exception KeyboardInterrupt = False"
| "is_Exception _ = True"

fun is_WAError :: "exn \<Rightarrow> bool" where
  "is_WAError DeviceNotRespondingError = True"
| "is_WAError DeviceError = True"
| "is_WAError ConfigError = True"
| "is_WAError InstrumentError = True"
| "is_WAError WAError = True"
| "is_WAError _ = False"

text \<open>The sections that \<open>_signal_wrap\<close> is called with.\<close>

datatype section_name =
    INITIAL_BOOT
  | BOOT
  | FLASHING
  | WORKLOAD_SETUP
  | WORKLOAD_EXECUTION
  | WORKLOAD_TEARDOWN
  | OVERALL_RESULTS_PROCESSING

text \<open>
  The signals the module sends. \<open>getattr(signal, 'BEFORE_' + signal_name)\<close> is
  \<open>BEFORE signal_name\<close>, and likewise for the other two prefixes.
\<close>

datatype signal =
    RUN_START
  | RUN_INIT
  | RUN_FIN
  | RUN_END
  | WORKLOAD_SPEC_START
  | WORKLOAD_SPEC_END
  | ITERATION_START
  | ITERATION_END
  | BEFORE_WORKLOAD_RESULT_UPDATE
  | SUCCESSFUL_WORKLOAD_RESULT_UPDATE
  | AFTER_WORKLOAD_RESULT_UPDATE
  | BEFORE section_name
  | SUCCESSFUL section_name
  | AFTER section_name

text \<open>
  The calls that leave the module: the device, the device manager, the workload of a
  spec (the argument is the spec object), instrumentation, the result manager and the
  creation of an output directory. Each of them may return or raise.
\<close>

datatype ext =
    device_boot
  | device_boot_hard
  | device_connect
  | device_disconnect
  | device_flash
  | device_check_responsive
  | device_capture_screen
  | device_manager_connect
  | device_manager_initialize
  | device_manager_start
  | device_manager_stop
  | device_manager_set_runtime_parameters
  | workload_initialize nat
  | workload_setup nat
  | workload_run nat
  | workload_update_result nat
  | workload_teardown nat
  | workload_finalize nat
  | instrumentation_disable_all
  | instrumentation_enable
  | instrumentation_enable_all
  | instrumentation_check_failures
  | result_manager_initialize
  | result_manager_add_result
  | result_manager_process_run_result
  | result_manager_finalize
  | ensure_directory_exists

fun is_hook :: "ext \<Rightarrow> bool" where
  "is_hook (workload_setup _) = True"
| "is_hook (workload_run _) = True"
| "is_hook (workload_update_result _) = True"
| "is_hook (workload_teardown _) = True"
| "is_hook _ = False"

text \<open>
  What an observer of a run sees, in order: a signal sent and an external call made.
  The assignment \<open>aborted = True\<close> is recorded among them, together with the queue
  and the number of iteration results at that moment, so that a property of a run can
  speak about what happens after it. Nothing reads these records.
\<close>

datatype event = Sent signal | Called ext | AbortedSet "nat list" nat

fun is_marker :: "event \<Rightarrow> bool" where
  "is_marker (AbortedSet _ _) = True"
| "is_marker _ = False"

subsection \<open>Objects\<close>

text \<open>
  Modelled from the spec: \<open>Artifact\<close> is declared in \<open>wlauto.core.plugin\<close>. Its
  constructor takes \<open>(name, path, kind, level, mandatory, description)\<close>, the fourth
  being the scope, \<open>RUN\<close> or \<open>ITERATION\<close>.
\<close>

datatype artifact_kind = log_kind | meta_kind | data_kind | raw_kind | export_kind

datatype artifact_level = RUN | ITERATION

record Artifact =
  name :: string
  path :: string
  kind :: artifact_kind
  level :: artifact_level
  mandatory :: bool
  description :: string

record IterationResult =
  status :: status
  events :: "exn list"
  result_iteration :: "int option"
  result_output_directory :: "string option"

text \<open>\<open>RunnerJob.__init__\<close>; \<open>spec\<close> is a reference to a \<open>WorkloadSpec\<close> object.\<close>

record RunnerJob =
  spec :: nat
  retry :: int
  iteration :: "int option"
  result :: IterationResult

definition new_RunnerJob :: "nat \<Rightarrow> int \<Rightarrow> RunnerJob" where
  "new_RunnerJob sp rt =
     \<lparr>spec = sp, retry = rt, iteration = None,
      result = \<lparr>status = NOT_STARTED, events = [], result_iteration = None,
                result_output_directory = None\<rparr>\<rparr>"

text \<open>
  The fields of a \<open>WorkloadSpec\<close> that the module reads and never writes:
  \<open>id\<close>, \<open>label\<close>, \<open>section_id\<close>, \<open>number_of_iterations\<close>, whether \<open>flash\<close> is set,
  and \<open>workload.artifacts\<close>. \<open>spec_enabled\<close> is the value of \<open>enabled\<close> when the run
  starts; the attribute itself is mutable and lives in the state.
\<close>

record WorkloadSpec =
  spec_id :: string
  label :: string
  section_id :: string
  number_of_iterations :: int
  flash :: bool
  workload_artifacts :: "Artifact list"
  spec_enabled :: bool

text \<open>
  The configuration of a run: \<open>config.retry_on_status\<close>, \<open>config.max_retries\<close>,
  \<open>config.workload_specs\<close> (references to spec objects, \<open>spec_of\<close> giving the object
  behind a reference), the four booleans of \<open>reboot_policy\<close>,
  \<open>config.output_directory\<close>, and the artifacts \<open>ExecutionContext.__init__\<close> derives
  from the agenda and the configuration files.
\<close>

record config =
  config_output_directory :: string
  meta_artifacts :: "Artifact list"
  retry_on_status :: "status list"
  max_retries :: int
  workload_specs :: "nat list"
  spec_of :: "nat \<Rightarrow> WorkloadSpec"
  perform_initial_boot :: bool
  can_reboot :: bool
  reboot_on_each_spec :: bool
  reboot_on_each_iteration :: bool

text \<open>
  The world outside the module. \<open>outcome n c\<close> is what the external call \<open>c\<close> does
  when it is the \<open>n\<close>-th external call of the run: return (\<open>None\<close>) or raise.
  \<open>failures n\<close> is what \<open>instrumentation.check_failures()\<close> returns there.
  \<open>can_reset_power\<close> and \<open>can_flash\<close> are \<open>device.can('reset_power')\<close> and
  \<open>device.can('flash')\<close>. \<open>isfile\<close>, \<open>isdir\<close> and \<open>abspath\<close> are the
  functions of \<open>os.path\<close>. \<open>dnre_is_DeviceError\<close> says whether
  \<open>DeviceNotRespondingError\<close> is declared as a subclass of \<open>DeviceError\<close>
  (\<open>wlauto.exceptions\<close> is not part of the sources at hand).
\<close>

record environment =
  outcome :: "nat \<Rightarrow> ext \<Rightarrow> exn option"
  failures :: "nat \<Rightarrow> bool"
  can_reset_power :: bool
  can_flash :: bool
  isfile :: "string \<Rightarrow> bool"
  isdir :: "string \<Rightarrow> bool"
  abspath :: "string \<Rightarrow> string"
  dnre_is_DeviceError :: bool

definition is_DeviceError :: "environment \<Rightarrow> exn \<Rightarrow> bool" where
  "is_DeviceError env e =
     (e = DeviceError \<or> (e = DeviceNotRespondingError \<and> dnre_is_DeviceError env))"

subsection \<open>The state\<close>

text \<open>
  One record holds what the run mutates. Jobs are objects: \<open>jobs\<close> is the store, and
  \<open>job_queue\<close>, \<open>completed_jobs\<close> and \<open>ctx_current_job\<close> hold references into it, so
  that a status written through the Runner's queue head is the status
  \<open>ExecutionContext.end_job\<close> reads through \<open>context.current_job\<close>. A job owns its
  result object, so \<open>iteration_results\<close> holds job references too: the entry \<open>r\<close>
  stands for \<open>result (jobs s r)\<close>. \<open>enabled\<close> is the \<open>enabled\<close> attribute of each spec
  object, \<open>setup_ok\<close> the local variable of \<open>_run_job\<close>, \<open>trace\<close> what has been observed
  so far and \<open>tick\<close> the number of external calls made.
\<close>

record state =
  ctx_current_job :: "nat option"
  output_directory :: "string option"
  run_output_directory :: string
  iteration_artifacts :: "Artifact list option"
  run_artifacts :: "Artifact list"
  job_iteration_counts :: "(string \<times> int) list"
  aborted :: bool
  iteration_results :: "nat list"
  non_iteration_errors :: bool
  job_queue :: "nat list"
  completed_jobs :: "nat list"
  jobs :: "nat \<Rightarrow> RunnerJob"
  next_ref :: nat
  enabled :: "nat \<Rightarrow> bool"
  setup_ok :: bool
  trace :: "event list"
  tick :: nat

subsection \<open>Control flow\<close>

text \<open>
  A piece of code is a function from the state to the exception it raised, if any, and
  the state it left.
\<close>

type_synonym action = "state \<Rightarrow> exn option \<times> state"

definition skip :: action where
  "skip s = (None, s)"

definition raise :: "exn \<Rightarrow> action" where
  "raise e s = (Some e, s)"

definition modify :: "(state \<Rightarrow> state) \<Rightarrow> action" where
  "modify f s = (None, f s)"

definition seq :: "action \<Rightarrow> action \<Rightarrow> action" where
  "seq a b s = (case a s of (None, s1) \<Rightarrow> b s1 | (Some e, s1) \<Rightarrow> (Some e, s1))"

fun block :: "action list \<Rightarrow> action" where
  "block [] = skip"
| "block (a # as) = seq a (block as)"

definition cond :: "(state \<Rightarrow> bool) \<Rightarrow> action \<Rightarrow> action \<Rightarrow> action" where
  "cond b a1 a2 s = (if b s then a1 s else a2 s)"

text \<open>A value read from the state and used by the code that follows.\<close>

definition read :: "(state \<Rightarrow> 'a) \<Rightarrow> ('a \<Rightarrow> action) \<Rightarrow> action" where
  "read f k s = k (f s) s"

text \<open>A condition whose evaluation may itself raise (a property of the Runner).\<close>

definition cond_prop :: "(state \<Rightarrow> exn + bool) \<Rightarrow> action \<Rightarrow> action \<Rightarrow> action" where
  "cond_prop p a1 a2 s =
     (case p s of Inl e \<Rightarrow> (Some e, s) | Inr b \<Rightarrow> if b then a1 s else a2 s)"

text \<open>\<open>for x in xs: f x\<close>\<close>

definition for_each :: "('a \<Rightarrow> action) \<Rightarrow> 'a list \<Rightarrow> action" where
  "for_each f xs = block (map f xs)"

text \<open>
  \<open>try: a except E, e: h e\<close>. The handler \<open>h\<close> gets every exception; for one that no
  clause of the source catches it is \<open>raise e\<close>.
\<close>

definition try_except :: "action \<Rightarrow> (exn \<Rightarrow> action) \<Rightarrow> action" where
  "try_except a h s = (case a s of (None, s1) \<Rightarrow> (None, s1) | (Some e, s1) \<Rightarrow> h e s1)"

text \<open>\<open>try: a except E, e: h e else: b\<close>: what \<open>b\<close> raises is not handled by \<open>h\<close>.\<close>

definition try_except_else :: "action \<Rightarrow> (exn \<Rightarrow> action) \<Rightarrow> action \<Rightarrow> action" where
  "try_except_else a h b s = (case a s of (None, s1) \<Rightarrow> b s1 | (Some e, s1) \<Rightarrow> h e s1)"

text \<open>
  \<open>try: a finally: f\<close>: \<open>f\<close> runs on every path, and an exception of \<open>f\<close> replaces
  the one that was on its way.
\<close>

definition try_finally :: "action \<Rightarrow> action \<Rightarrow> action" where
  "try_finally a f s =
     (case a s of (r, s1) \<Rightarrow>
        (case f s1 of (None, s2) \<Rightarrow> (r, s2) | (Some e, s2) \<Rightarrow> (Some e, s2)))"

text \<open>\<open>Runner._send\<close>: the observers are outside the module; the signal is recorded.\<close>

definition send :: "signal \<Rightarrow> action" where
  "send sg = modify (\<lambda>s. s\<lparr>trace := trace s @ [Sent sg]\<rparr>)"

text \<open>An external call: recorded, counted, and answered by the environment.\<close>

definition call :: "environment \<Rightarrow> ext \<Rightarrow> action" where
  "call env c s =
     (outcome env (tick s) c, s\<lparr>trace := trace s @ [Called c], tick := Suc (tick s)\<rparr>)"

subsection \<open>\<open>Runner._signal_wrap\<close>\<close>

text \<open>
  \<^verbatim>\<open>
  try:
      self._send(before_signal)
      yield
      self._send(success_signal)
  finally:
      self._send(after_signal)
  \<close>
  The body of the \<open>with\<close> statement runs at \<open>yield\<close>; what it raises is raised there.
\<close>

definition signal_wrap :: "section_name \<Rightarrow> action \<Rightarrow> action" where
  "signal_wrap signal_name body =
     try_finally (block [send (BEFORE signal_name), body, send (SUCCESSFUL signal_name)])
                 (send (AFTER signal_name))"

text \<open>
  C1. A signal-wrapped section sends \<open>BEFORE_X\<close> first; the events of the body follow;
  if the body returns, \<open>SUCCESSFUL_X\<close> and then \<open>AFTER_X\<close> are sent and the section
  returns; if the body raises, \<open>SUCCESSFUL_X\<close> is not sent, \<open>AFTER_X\<close> is, and the
  exception goes on. So, for a body that does not itself send \<open>SUCCESSFUL_X\<close>, that
  signal stands between \<open>BEFORE_X\<close> and \<open>AFTER_X\<close> exactly when the body returned.
\<close>

theorem signal_wrap_contract:
  assumes "body (s\<lparr>trace := trace s @ [Sent (BEFORE X)]\<rparr>) = (r, s1)"
    and "trace s1 = trace s @ [Sent (BEFORE X)] @ evs"
  shows "\<exists>s' mid. signal_wrap X body s = (r, s')
           \<and> trace s' = trace s @ [Sent (BEFORE X)] @ mid @ [Sent (AFTER X)]
           \<and> mid = evs @ (if r = None then [Sent (SUCCESSFUL X)] else [])
           \<and> (Sent (SUCCESSFUL X) \<notin> set evs \<longrightarrow>
                (Sent (SUCCESSFUL X) \<in> set mid \<longleftrightarrow> r = None))"
  using assms
  by (cases r)
     (simp_all add: signal_wrap_def try_finally_def seq_def send_def modify_def skip_def)


subsection \<open>Strings and paths\<close>

definition startswith :: "string \<Rightarrow> string \<Rightarrow> bool" where
  "startswith s p = (take (length p) s = p)"

definition endswith :: "string \<Rightarrow> string \<Rightarrow> bool" where
  "endswith s p = (length p \<le> length s \<and> drop (length s - length p) s = p)"

text \<open>\<open>os.path.join\<close> of two components (posixpath).\<close>

definition os_path_join :: "string \<Rightarrow> string \<Rightarrow> string" where
  "os_path_join a b =
     (if startswith b ''/'' then b
      else if a = [] \<or> endswith a ''/'' then a @ b
      else a @ ''/'' @ b)"

fun str_nat :: "nat \<Rightarrow> string" where
  "str_nat n =
     (if n < 10 then [''0123456789'' ! n]
      else str_nat (n div 10) @ [''0123456789'' ! (n mod 10)])"

definition str_int :: "int \<Rightarrow> string" where
  "str_int i = (if i < 0 then ''-'' @ str_nat (nat (- i)) else str_nat (nat i))"

subsection \<open>\<open>ExecutionContext\<close>\<close>

text \<open>
  \<open>job_iteration_counts\<close> is a \<open>defaultdict(int)\<close>: a missing key reads as 0, and
  \<open>counts[k] += 1\<close> stores one more than what was read.
\<close>

fun count_of :: "(string \<times> int) list \<Rightarrow> string \<Rightarrow> int" where
  "count_of [] k = 0"
| "count_of ((k', v) # kvs) k = (if k' = k then v else count_of kvs k)"

fun increment :: "(string \<times> int) list \<Rightarrow> string \<Rightarrow> (string \<times> int) list" where
  "increment [] k = [(k, 1)]"
| "increment ((k', v) # kvs) k =
     (if k' = k then (k', v + 1) # kvs else (k', v) # increment kvs k)"


definition default_run_artifacts :: "Artifact list" where
  "default_run_artifacts =
     [\<lparr>name = ''runlog'', path = ''run.log'', kind = log_kind, level = RUN,
       mandatory = True, description = ''The log for the entire run.''\<rparr>]"

text \<open>
  \<open>ExecutionContext.__init__\<close> and \<open>Runner.__init__\<close>: the state before
  \<open>initialize\<close> and \<open>init_queue\<close>. No job object exists yet.
\<close>

definition initial_state :: "config \<Rightarrow> state" where
  "initial_state cfg =
     \<lparr>ctx_current_job = None,
      output_directory = None,
      run_output_directory = config_output_directory cfg,
      iteration_artifacts = None,
      run_artifacts = default_run_artifacts @ meta_artifacts cfg,
      job_iteration_counts = [],
      aborted = False,
      iteration_results = [],
      non_iteration_errors = False,
      job_queue = [],
      completed_jobs = [],
      jobs = (\<lambda>_. new_RunnerJob 0 0),
      next_ref = 0,
      enabled = (\<lambda>sp. spec_enabled (spec_of cfg sp)),
      setup_ok = False,
      trace = [],
      tick = 0\<rparr>"

text \<open>
  \<^verbatim>\<open>
  def initialize(self):
      if not os.path.isdir(self.run_output_directory):
          os.makedirs(self.run_output_directory)
      self.output_directory = self.run_output_directory
      self.resolver = ResourceResolver(self.config)
      self.run_info = RunInfo(self.config)
      self.run_result = RunResult(self.run_info, self.run_output_directory)
  \<close>
  Modelled from the spec: a new \<open>RunResult\<close> has no iteration results.
\<close>

definition initialize :: "environment \<Rightarrow> action" where
  "initialize env =
     block [
       cond (\<lambda>s. \<not> isdir env (run_output_directory s)) (call env ensure_directory_exists) skip,
       modify (\<lambda>s. s\<lparr>output_directory := Some (run_output_directory s)\<rparr>),
       modify (\<lambda>s. s\<lparr>iteration_results := [], non_iteration_errors := False\<rparr>)]"

text \<open>The properties \<open>spec\<close> and \<open>current_iteration\<close> of the context.\<close>

definition ctx_spec :: "state \<Rightarrow> nat option" where
  "ctx_spec s = (case ctx_current_job s of None \<Rightarrow> None | Some r \<Rightarrow> Some (spec (jobs s r)))"

definition current_iteration :: "config \<Rightarrow> state \<Rightarrow> int option" where
  "current_iteration cfg s =
     (case ctx_current_job s of
        None \<Rightarrow> None
      | Some r \<Rightarrow>
          Some (count_of (job_iteration_counts s) (spec_id (spec_of cfg (spec (jobs s r))))))"

definition outdir_name :: "config \<Rightarrow> state \<Rightarrow> string" where
  "outdir_name cfg s =
     (case ctx_current_job s of
        None \<Rightarrow> []
      | Some r \<Rightarrow>
          (let sp = spec_of cfg (spec (jobs s r))
           in label sp @ ''_'' @ spec_id sp @ ''_''
              @ str_int (count_of (job_iteration_counts s) (spec_id sp))))"

definition set_result_fields :: "nat \<Rightarrow> int option \<Rightarrow> string option \<Rightarrow> state \<Rightarrow> state" where
  "set_result_fields r it dir s =
     s\<lparr>jobs := (jobs s)(r := (jobs s r)\<lparr>result :=
          (result (jobs s r))\<lparr>result_iteration := it, result_output_directory := dir\<rparr>\<rparr>)\<rparr>"

text \<open>
  \<^verbatim>\<open>
  def next_job(self, job):
      self.current_job = job
      self.job_iteration_counts[self.spec.id] += 1
      if not self.aborted:
          outdir_name = '_'.join(map(str, [self.spec.label, self.spec.id, self.current_iteration]))
          self.output_directory = _d(os.path.join(self.run_output_directory, outdir_name))
          self.iteration_artifacts = [wa for wa in self.workload.artifacts]
      self.current_job.result.iteration = self.current_iteration
      self.current_job.result.output_directory = self.output_directory
  \<close>
\<close>

definition next_job :: "environment \<Rightarrow> config \<Rightarrow> nat \<Rightarrow> action" where
  "next_job env cfg job =
     block [
       modify (\<lambda>s. s\<lparr>ctx_current_job := Some job\<rparr>),
       modify (\<lambda>s. s\<lparr>job_iteration_counts :=
          increment (job_iteration_counts s) (spec_id (spec_of cfg (spec (jobs s job))))\<rparr>),
       cond (\<lambda>s. \<not> aborted s)
         (block [
            call env ensure_directory_exists,
            modify (\<lambda>s. s\<lparr>output_directory :=
               Some (os_path_join (run_output_directory s) (outdir_name cfg s))\<rparr>),
            modify (\<lambda>s. s\<lparr>iteration_artifacts :=
               Some (workload_artifacts (spec_of cfg (spec (jobs s job))))\<rparr>)])
         skip,
       modify (\<lambda>s. set_result_fields job (current_iteration cfg s) (output_directory s) s)]"

text \<open>
  \<^verbatim>\<open>
  def end_job(self):
      if self.current_job.result.status == IterationResult.ABORTED:
          self.aborted = True
      self.current_job = None
      self.output_directory = self.run_output_directory
  \<close>
\<close>

definition end_job :: action where
  "end_job s =
     (case ctx_current_job s of
        None \<Rightarrow> (Some AttributeError, s)
      | Some r \<Rightarrow>
          (None,
           (if status (result (jobs s r)) = ABORTED
            then s\<lparr>aborted := True,
                   trace := trace s @ [AbortedSet (job_queue s) (length (iteration_results s))]\<rparr>
            else s)
           \<lparr>ctx_current_job := None, output_directory := Some (run_output_directory s)\<rparr>))"

subsection \<open>Artifacts\<close>

text \<open>
  \<^verbatim>\<open>
  def _check_artifact_path(path, rootpath):
      if path.startswith(rootpath):
          return os.path.abspath(path)
      rootpath = os.path.abspath(rootpath)
      full_path = os.path.join(rootpath, path)
      if not os.path.isfile(full_path):
          raise ValueError(...)
      return full_path
  \<close>
\<close>

definition check_artifact_path :: "environment \<Rightarrow> string \<Rightarrow> string \<Rightarrow> exn + string" where
  "check_artifact_path env pth rootpath =
     (if startswith pth rootpath then Inr (abspath env pth)
      else (let rootpath' = abspath env rootpath;
                full_path = os_path_join rootpath' pth
            in if \<not> isfile env full_path then Inl ValueError else Inr full_path))"

text \<open>
  \<^verbatim>\<open>
  def add_run_artifact(self, name, path, kind, *args, **kwargs):
      path = _check_artifact_path(path, self.run_output_directory)
      self.run_artifacts.append(Artifact(name, path, kind, Artifact.ITERATION, *args, **kwargs))

  def add_iteration_artifact(self, name, path, kind, *args, **kwargs):
      path = _check_artifact_path(path, self.output_directory)
      self.iteration_artifacts.append(Artifact(name, path, kind, Artifact.RUN, *args, **kwargs))
  \<close>
  The remaining arguments are \<open>mandatory\<close> and \<open>description\<close>.
\<close>

definition add_run_artifact ::
  "environment \<Rightarrow> string \<Rightarrow> string \<Rightarrow> artifact_kind \<Rightarrow> bool \<Rightarrow> string \<Rightarrow> action" where
  "add_run_artifact env nm pth knd mand descr s =
     (case check_artifact_path env pth (run_output_directory s) of
        Inl e \<Rightarrow> (Some e, s)
      | Inr p \<Rightarrow>
          (None, s\<lparr>run_artifacts := run_artifacts s @
             [\<lparr>name = nm, path = p, kind = knd, level = ITERATION,
               mandatory = mand, description = descr\<rparr>]\<rparr>))"

definition add_iteration_artifact ::
  "environment \<Rightarrow> string \<Rightarrow> string \<Rightarrow> artifact_kind \<Rightarrow> bool \<Rightarrow> string \<Rightarrow> action" where
  "add_iteration_artifact env nm pth knd mand descr s =
     (case output_directory s of
        None \<Rightarrow> (Some TypeError, s)
      | Some root \<Rightarrow>
          (case check_artifact_path env pth root of
             Inl e \<Rightarrow> (Some e, s)
           | Inr p \<Rightarrow>
               (case iteration_artifacts s of
                  None \<Rightarrow> (Some AttributeError, s)
                | Some arts \<Rightarrow>
                    (None, s\<lparr>iteration_artifacts := Some (arts @
                       [\<lparr>name = nm, path = p, kind = knd, level = RUN,
                         mandatory = mand, description = descr\<rparr>])\<rparr>))))"

text \<open>
  \<^verbatim>\<open>
  def add_artifact(self, name, path, kind, *args, **kwargs):
      if self.current_job is None:
          self.add_run_artifact(name, path, kind, *args, **kwargs)
      else:
          self.add_iteration_artifact(name, path, kind, *args, **kwargs)
  \<close>
\<close>

definition add_artifact ::
  "environment \<Rightarrow> string \<Rightarrow> string \<Rightarrow> artifact_kind \<Rightarrow> bool \<Rightarrow> string \<Rightarrow> action" where
  "add_artifact env nm pth knd mand descr =
     cond (\<lambda>s. ctx_current_job s = None)
       (add_run_artifact env nm pth knd mand descr)
       (add_iteration_artifact env nm pth knd mand descr)"

text \<open>
  \<^verbatim>\<open>
  def get_artifact(self, name):
      if self.iteration_artifacts:
          for art in self.iteration_artifacts:
              if art.name == name:
                  return art
      for art in self.run_artifacts:
          if art.name == name:
              return art
      return None
  \<close>
  Each loop is \<open>first_named\<close>. The method has no assignment and no raise, and a
  \<open>None\<close> or empty \<open>iteration_artifacts\<close> is skipped by the truth test, so the model
  is a function of the state alone.
\<close>

fun first_named :: "Artifact list \<Rightarrow> string \<Rightarrow> Artifact option" where
  "first_named [] nm = None"
| "first_named (art # arts) nm = (if name art = nm then Some art else first_named arts nm)"

definition get_artifact :: "state \<Rightarrow> string \<Rightarrow> Artifact option" where
  "get_artifact s nm =
     (case (case iteration_artifacts s of
              None \<Rightarrow> None
            | Some arts \<Rightarrow> if arts \<noteq> [] then first_named arts nm else None) of
        Some art \<Rightarrow> Some art
      | None \<Rightarrow> first_named (run_artifacts s) nm)"


subsection \<open>Looking artifacts up\<close>

lemma first_named_find: "first_named arts nm = List.find (\<lambda>a. name a = nm) arts"
  by (induction arts) simp_all

lemma first_named_None: "first_named arts nm = None \<longleftrightarrow> nm \<notin> name ` set arts"
  by (induction arts) auto

lemma first_named_Some:
  "first_named arts nm = Some art \<Longrightarrow>
     \<exists>pre post. arts = pre @ art # post \<and> name art = nm \<and> nm \<notin> name ` set pre"
proof (induction arts)
  case Nil
  then show ?case by simp
next
  case (Cons a arts)
  show ?case
  proof (cases "name a = nm")
    case True
    with Cons.prems have "a = art" by simp
    with True have "a # arts = [] @ art # arts \<and> name art = nm \<and> nm \<notin> name ` set []" by simp
    then show ?thesis by blast
  next
    case False
    with Cons.prems have "first_named arts nm = Some art" by simp
    from Cons.IH [OF this] obtain pre post where
      "arts = pre @ art # post" "name art = nm" "nm \<notin> name ` set pre" by blast
    with False have "a # arts = (a # pre) @ art # post \<and> name art = nm \<and> nm \<notin> name ` set (a # pre)"
      by auto
    then show ?thesis by blast
  qed
qed

definition artifacts_of :: "Artifact list option \<Rightarrow> Artifact list" where
  "artifacts_of x = (case x of None \<Rightarrow> [] | Some arts \<Rightarrow> arts)"

text \<open>
  C10. \<open>get_artifact\<close> returns the first artifact of that name in
  \<open>iteration_artifacts\<close> if there is one, else the first in \<open>run_artifacts\<close>, and
  \<open>None\<close> exactly when neither list has an artifact of that name. It is a total
  function of the state that returns no state: it cannot raise or mutate.
\<close>

theorem get_artifact_first_match:
  "get_artifact s nm =
     (case List.find (\<lambda>a. name a = nm) (artifacts_of (iteration_artifacts s)) of
        Some art \<Rightarrow> Some art
      | None \<Rightarrow> List.find (\<lambda>a. name a = nm) (run_artifacts s))
   \<and> (get_artifact s nm = None \<longleftrightarrow>
        nm \<notin> name ` (set (artifacts_of (iteration_artifacts s)) \<union> set (run_artifacts s)))"
proof (intro conjI)
  show "get_artifact s nm =
     (case List.find (\<lambda>a. name a = nm) (artifacts_of (iteration_artifacts s)) of
        Some art \<Rightarrow> Some art
      | None \<Rightarrow> List.find (\<lambda>a. name a = nm) (run_artifacts s))"
    by (cases "iteration_artifacts s")
       (simp_all add: get_artifact_def artifacts_of_def first_named_find
                 split: option.splits)
  have "get_artifact s nm = None \<longleftrightarrow>
          first_named (artifacts_of (iteration_artifacts s)) nm = None
          \<and> first_named (run_artifacts s) nm = None"
    by (cases "iteration_artifacts s")
       (auto simp: get_artifact_def artifacts_of_def split: option.splits)
  then show "get_artifact s nm = None \<longleftrightarrow>
        nm \<notin> name ` (set (artifacts_of (iteration_artifacts s)) \<union> set (run_artifacts s))"
    by (simp add: first_named_None image_Un)
qed


subsection \<open>A concrete world\<close>

text \<open>
  An environment in which no external call raises, no file exists and every directory
  does; and a configuration with the four specs \<open>X.A\<close>, \<open>X.B\<close>, \<open>Y.A\<close>, \<open>Y.B\<close>
  (references 0 to 3) of two iterations each, no retries and no reboots.
\<close>

definition quiet_env :: environment where
  "quiet_env =
     \<lparr>outcome = (\<lambda>n c. None), failures = (\<lambda>n. False),
      can_reset_power = False, can_flash = False,
      isfile = (\<lambda>p. False), isdir = (\<lambda>p. True), abspath = (\<lambda>p. p),
      dnre_is_DeviceError = False\<rparr>"

definition example_spec :: "string \<Rightarrow> string \<Rightarrow> WorkloadSpec" where
  "example_spec sec wl =
     \<lparr>spec_id = sec @ ''.'' @ wl, label = wl, section_id = sec, number_of_iterations = 2,
      flash = False, workload_artifacts = [], spec_enabled = True\<rparr>"

definition example_specs :: "nat \<Rightarrow> WorkloadSpec" where
  "example_specs r =
     (if r = 0 then example_spec ''X'' ''A''
      else if r = 1 then example_spec ''X'' ''B''
      else if r = 2 then example_spec ''Y'' ''A''
      else example_spec ''Y'' ''B'')"

definition example_config :: config where
  "example_config =
     \<lparr>config_output_directory = ''/out'', meta_artifacts = [],
      retry_on_status = [], max_retries = 0,
      workload_specs = [0, 1, 2, 3], spec_of = example_specs,
      perform_initial_boot = False, can_reboot = True,
      reboot_on_each_spec = False, reboot_on_each_iteration = False\<rparr>"

theorem signal_wrap_contract_witness:
  "\<exists>s' mid. signal_wrap WORKLOAD_SETUP (call quiet_env (workload_setup 0))
               (initial_state example_config) = (None, s')
     \<and> trace s' = [Sent (BEFORE WORKLOAD_SETUP)] @ mid @ [Sent (AFTER WORKLOAD_SETUP)]
     \<and> mid = [Called (workload_setup 0), Sent (SUCCESSFUL WORKLOAD_SETUP)]"
  using signal_wrap_contract [of "call quiet_env (workload_setup 0)"
      "initial_state example_config" WORKLOAD_SETUP None
      "snd (call quiet_env (workload_setup 0)
         ((initial_state example_config)\<lparr>trace := [Sent (BEFORE WORKLOAD_SETUP)]\<rparr>))"
      "[Called (workload_setup 0)]"]
  by (simp add: call_def quiet_env_def initial_state_def)

subsection \<open>Registering artifacts\<close>

text \<open>
  C8, as stated, fails: a path that starts with the output directory is accepted without
  any look at the file system. Here no file exists at all, and the artifact is
  registered.
\<close>

theorem add_run_artifact_absent_file_counterexample:
  "\<not> isfile quiet_env ''/out/missing.txt''
   \<and> fst (add_run_artifact quiet_env ''a'' ''/out/missing.txt'' data_kind False []
            (initial_state example_config)) = None
   \<and> map path (run_artifacts (snd (add_run_artifact quiet_env ''a'' ''/out/missing.txt''
            data_kind False [] (initial_state example_config))))
       = [''run.log'', ''/out/missing.txt'']"
  by (simp add: add_run_artifact_def check_artifact_path_def startswith_def quiet_env_def
        initial_state_def example_config_def default_run_artifacts_def)

text \<open>
  C8, amended. Registration checks the path first. A path that starts with the output
  directory (\<open>run_output_directory\<close> for a run artifact, \<open>output_directory\<close> for an
  iteration artifact) is registered as its absolute path, whether the file exists or
  not. Any other path is joined to the absolute output directory, and if the joined
  path is not an existing file, registration raises \<open>ValueError\<close> and leaves the
  context as it was.
\<close>

theorem artifact_path_check:
  "(startswith pth (run_output_directory s) \<longrightarrow>
      fst (add_run_artifact env nm pth knd m d s) = None
      \<and> map path (run_artifacts (snd (add_run_artifact env nm pth knd m d s)))
          = map path (run_artifacts s) @ [abspath env pth])
   \<and> (\<not> startswith pth (run_output_directory s)
       \<and> \<not> isfile env (os_path_join (abspath env (run_output_directory s)) pth) \<longrightarrow>
      add_run_artifact env nm pth knd m d s = (Some ValueError, s))
   \<and> (output_directory s = Some root \<and> iteration_artifacts s = Some arts
       \<and> startswith pth root \<longrightarrow>
      fst (add_iteration_artifact env nm pth knd m d s) = None
      \<and> map_option (map path) (iteration_artifacts (snd (add_iteration_artifact env nm pth knd m d s)))
          = Some (map path arts @ [abspath env pth]))
   \<and> (output_directory s = Some root \<and> \<not> startswith pth root
       \<and> \<not> isfile env (os_path_join (abspath env root) pth) \<longrightarrow>
      add_iteration_artifact env nm pth knd m d s = (Some ValueError, s))"
  by (simp add: add_run_artifact_def add_iteration_artifact_def check_artifact_path_def
        Let_def)

theorem artifact_path_check_witness:
  "add_run_artifact quiet_env ''a'' ''missing.txt'' data_kind False []
     (initial_state example_config) = (Some ValueError, initial_state example_config)
   \<and> map path (run_artifacts (snd (add_run_artifact quiet_env ''a'' ''/out/a.txt''
        data_kind False [] (initial_state example_config)))) = [''run.log'', ''/out/a.txt'']"
  using artifact_path_check [of "''missing.txt''" "initial_state example_config" quiet_env
      "''a''" data_kind False "[]" "''/nowhere''" "[]"]
    artifact_path_check [of "''/out/a.txt''" "initial_state example_config" quiet_env
      "''a''" data_kind False "[]" "''/nowhere''" "[]"]
  by (simp add: startswith_def quiet_env_def initial_state_def example_config_def
        default_run_artifacts_def os_path_join_def endswith_def)

text \<open>
  C9. \<open>add_artifact\<close> does choose the list by \<open>current_job\<close>, but the scope it passes
  is the wrong way round: with no job active the artifact goes to \<open>run_artifacts\<close> with
  scope \<open>ITERATION\<close>, and with a job active it goes to \<open>iteration_artifacts\<close> with
  scope \<open>RUN\<close>.
\<close>

theorem add_artifact_scope_swapped:
  "map level (run_artifacts (snd (add_artifact quiet_env ''a'' ''/out/a.txt'' data_kind
      False [] (initial_state example_config)))) = [RUN, ITERATION]
   \<and> map_option (map level) (iteration_artifacts (snd (add_artifact quiet_env ''a'' ''/out/X.A_1/a.txt''
      data_kind False []
      ((initial_state example_config)\<lparr>ctx_current_job := Some 0,
         output_directory := Some ''/out/X.A_1'', iteration_artifacts := Some []\<rparr>))))
      = Some [RUN]"
  by (simp add: add_artifact_def cond_def add_run_artifact_def add_iteration_artifact_def
        check_artifact_path_def startswith_def quiet_env_def initial_state_def
        example_config_def default_run_artifacts_def)


subsection \<open>Job objects and the queue\<close>

text \<open>
  Creating an object gives a reference that no earlier creation returned (\<open>next_ref\<close>
  counts them) and that nothing in the state refers to.
\<close>

definition referenced :: "state \<Rightarrow> nat list" where
  "referenced s =
     job_queue s @ completed_jobs s @ iteration_results s
     @ (case ctx_current_job s of None \<Rightarrow> [] | Some r \<Rightarrow> [r])"

definition fresh :: "state \<Rightarrow> nat" where
  "fresh s = fold max (map Suc (referenced s)) (next_ref s)"

text \<open>\<open>RunnerJob(spec, retry)\<close>: the new object is stored, its reference returned.\<close>

definition RunnerJob_init :: "nat \<Rightarrow> int \<Rightarrow> state \<Rightarrow> nat \<times> state" where
  "RunnerJob_init sp rt s =
     (let r = fresh s
      in (r, s\<lparr>jobs := (jobs s)(r := new_RunnerJob sp rt), next_ref := Suc r\<rparr>))"

text \<open>\<open>[RunnerJob(s) for _ in xrange(n)]\<close>\<close>

fun new_jobs :: "nat \<Rightarrow> nat \<Rightarrow> state \<Rightarrow> nat list \<times> state" where
  "new_jobs sp 0 s = ([], s)"
| "new_jobs sp (Suc n) s =
     (case RunnerJob_init sp 0 s of (r, s1) \<Rightarrow>
        (case new_jobs sp n s1 of (rs, s2) \<Rightarrow> (r # rs, s2)))"

text \<open>\<open>[[RunnerJob(s) for _ in xrange(s.number_of_iterations)] for s in specs]\<close>\<close>

fun new_job_lists :: "config \<Rightarrow> nat list \<Rightarrow> state \<Rightarrow> nat list list \<times> state" where
  "new_job_lists cfg [] s = ([], s)"
| "new_job_lists cfg (sp # sps) s =
     (case new_jobs sp (nat (number_of_iterations (spec_of cfg sp))) s of (rs, s1) \<Rightarrow>
        (case new_job_lists cfg sps s1 of (rss, s2) \<Rightarrow> (rs # rss, s2)))"

text \<open>
  \<open>itertools.izip_longest(*xss)\<close>: the tuples of the first, second, ... elements,
  with \<open>None\<close> where a list has run out, until all have.
\<close>

function izip_longest :: "'a list list \<Rightarrow> 'a option list list" where
  "izip_longest xss =
     (if list_all (\<lambda>xs. xs = []) xss then []
      else map (\<lambda>xs. case xs of [] \<Rightarrow> None | x # _ \<Rightarrow> Some x) xss
           # izip_longest (map tl xss))"
  by pat_completeness auto

lemma sum_length_tl:
  "\<not> list_all (\<lambda>xs. xs = []) xss \<Longrightarrow>
     sum_list (map (length \<circ> tl) xss) < sum_list (map length xss)"
proof (induction xss)
  case Nil
  then show ?case by simp
next
  case (Cons xs xss)
  have le: "sum_list (map (length \<circ> tl) xss) \<le> sum_list (map length xss)"
    by (induction xss) auto
  show ?case
  proof (cases "xs = []")
    case True
    with Cons show ?thesis by simp
  next
    case False
    then have "length (tl xs) < length xs" by simp
    then have "length (tl xs) + sum_list (map (length \<circ> tl) xss)
                 < length xs + sum_list (map length xss)"
      using le by arith
    then show ?thesis by (simp add: comp_def del: length_tl)
  qed
qed

termination izip_longest
  by (relation "measure (\<lambda>xss. sum_list (map length xss))") (simp_all add: sum_length_tl)

declare izip_longest.simps [simp del]

text \<open>\<open>[j for t in tuples for j in t if j]\<close>: objects are true, \<open>None\<close> is not.\<close>

definition flatten_present :: "'a option list list \<Rightarrow> 'a list" where
  "flatten_present tuples = concat (map (\<lambda>t. concat (map (\<lambda>j. case j of None \<Rightarrow> [] | Some x \<Rightarrow> [x]) t)) tuples)"

text \<open>
  The \<open>OrderedDict\<close> of \<open>ByIterationRunner.init_queue\<close>: keys in the order of their
  first insertion.
\<close>

fun section_append :: "(string \<times> nat list) list \<Rightarrow> string \<Rightarrow> nat \<Rightarrow> (string \<times> nat list) list" where
  "section_append [] k sp = [(k, [sp])]"
| "section_append ((k', v) # kvs) k sp =
     (if k' = k then (k', v @ [sp]) # kvs else (k', v) # section_append kvs k sp)"

fun group_sections :: "config \<Rightarrow> nat list \<Rightarrow> (string \<times> nat list) list \<Rightarrow> (string \<times> nat list) list" where
  "group_sections cfg [] sections = sections"
| "group_sections cfg (sp # sps) sections =
     group_sections cfg sps (section_append sections (section_id (spec_of cfg sp)) sp)"

datatype runner_class = BySpecRunner | BySectionRunner | ByIterationRunner | RandomRunner

text \<open>
  \<open>Executor._get_runner\<close>: the class for \<open>config.execution_order\<close> (the empty string
  stands for an order that is not set).
\<close>

definition get_runner :: "string \<Rightarrow> exn + runner_class" where
  "get_runner execution_order =
     (if execution_order = [] \<or> execution_order = ''by_iteration'' then Inr ByIterationRunner
      else if execution_order \<in> set [''classic'', ''by_spec''] then Inr BySpecRunner
      else if execution_order = ''by_section'' then Inr BySectionRunner
      else if execution_order = ''random'' then Inr RandomRunner
      else Inl ConfigError)"

text \<open>
  \<open>init_queue\<close> of the four classes. \<open>shuffle\<close> is \<open>random.shuffle\<close>, which the
  \<open>RandomRunner\<close> applies to the jobs in by-spec order.
  \<^verbatim>\<open>
  class BySpecRunner(Runner):
      def init_queue(self, specs):
          jobs = [[RunnerJob(s) for _ in xrange(s.number_of_iterations)] for s in specs]
          self.job_queue = [j for spec_jobs in jobs for j in spec_jobs]

  class BySectionRunner(Runner):
      def init_queue(self, specs):
          jobs = [[RunnerJob(s) for _ in xrange(s.number_of_iterations)] for s in specs]
          self.job_queue = [j for spec_jobs in izip_longest(*jobs) for j in spec_jobs if j]

  class ByIterationRunner(Runner):
      def init_queue(self, specs):
          sections = OrderedDict()
          for s in specs:
              if s.section_id not in sections:
                  sections[s.section_id] = []
              sections[s.section_id].append(s)
          specs = [s for section_specs in izip_longest(*sections.values()) for s in section_specs if s]
          jobs = [[RunnerJob(s) for _ in xrange(s.number_of_iterations)] for s in specs]
          self.job_queue = [j for spec_jobs in izip_longest(*jobs) for j in spec_jobs if j]

  class RandomRunner(Runner):
      def init_queue(self, specs):
          jobs = [[RunnerJob(s) for _ in xrange(s.number_of_iterations)] for s in specs]
          all_jobs = [j for spec_jobs in jobs for j in spec_jobs]
          random.shuffle(all_jobs)
          self.job_queue = all_jobs
  \<close>
\<close>

fun init_queue :: "runner_class \<Rightarrow> (nat list \<Rightarrow> nat list) \<Rightarrow> config \<Rightarrow> nat list \<Rightarrow> state \<Rightarrow> state" where
  "init_queue BySpecRunner shuffle cfg specs s =
     (case new_job_lists cfg specs s of (jbs, s1) \<Rightarrow> s1\<lparr>job_queue := concat jbs\<rparr>)"
| "init_queue BySectionRunner shuffle cfg specs s =
     (case new_job_lists cfg specs s of (jbs, s1) \<Rightarrow>
        s1\<lparr>job_queue := flatten_present (izip_longest jbs)\<rparr>)"
| "init_queue ByIterationRunner shuffle cfg specs s =
     (let sections = group_sections cfg specs [];
          specs' = flatten_present (izip_longest (map snd sections))
      in case new_job_lists cfg specs' s of (jbs, s1) \<Rightarrow>
           s1\<lparr>job_queue := flatten_present (izip_longest jbs)\<rparr>)"
| "init_queue RandomRunner shuffle cfg specs s =
     (case new_job_lists cfg specs s of (jbs, s1) \<Rightarrow> s1\<lparr>job_queue := shuffle (concat jbs)\<rparr>)"

subsection \<open>The Runner\<close>

text \<open>The properties \<open>current_job\<close>, \<open>previous_job\<close> and \<open>next_job\<close> of the Runner.\<close>

definition Runner_current_job :: "state \<Rightarrow> nat option" where
  "Runner_current_job s = (case job_queue s of [] \<Rightarrow> None | r # _ \<Rightarrow> Some r)"

definition Runner_previous_job :: "state \<Rightarrow> nat option" where
  "Runner_previous_job s =
     (if completed_jobs s = [] then None else Some (last (completed_jobs s)))"

definition Runner_next_job :: "state \<Rightarrow> nat option" where
  "Runner_next_job s = (case job_queue s of _ # r # _ \<Rightarrow> Some r | _ \<Rightarrow> None)"

definition job_spec_id :: "config \<Rightarrow> state \<Rightarrow> nat \<Rightarrow> string" where
  "job_spec_id cfg s r = spec_id (spec_of cfg (spec (jobs s r)))"

text \<open>
  \<^verbatim>\<open>
  def spec_changed(self):
      if self.previous_job is None and self.current_job is not None:  # Start of run
          return True
      if self.previous_job is not None and self.current_job is None:  # End of run
          return True
      return self.current_job.spec.id != self.previous_job.spec.id
  \<close>
  and \<open>spec_will_change\<close>, the same over \<open>current_job\<close> and \<open>next_job\<close>.
\<close>

definition changed :: "config \<Rightarrow> state \<Rightarrow> nat option \<Rightarrow> nat option \<Rightarrow> exn + bool" where
  "changed cfg s earlier later =
     (case (earlier, later) of
        (None, Some _) \<Rightarrow> Inr True
      | (Some _, None) \<Rightarrow> Inr True
      | (None, None) \<Rightarrow> Inl AttributeError
      | (Some p, Some c) \<Rightarrow> Inr (job_spec_id cfg s c \<noteq> job_spec_id cfg s p))"

definition spec_changed :: "config \<Rightarrow> state \<Rightarrow> exn + bool" where
  "spec_changed cfg s = changed cfg s (Runner_previous_job s) (Runner_current_job s)"

definition spec_will_change :: "config \<Rightarrow> state \<Rightarrow> exn + bool" where
  "spec_will_change cfg s = changed cfg s (Runner_current_job s) (Runner_next_job s)"

text \<open>
  Code that starts from \<open>self.current_job\<close>, the head of the queue: on an empty queue
  that is \<open>None\<close>, and the attribute access raises.
\<close>

definition with_current_job :: "(nat \<Rightarrow> action) \<Rightarrow> action" where
  "with_current_job k s =
     (case job_queue s of [] \<Rightarrow> (Some AttributeError, s) | r # _ \<Rightarrow> k r s)"

definition write_status :: "nat \<Rightarrow> status \<Rightarrow> state \<Rightarrow> state" where
  "write_status r st s =
     s\<lparr>jobs := (jobs s)(r := (jobs s r)\<lparr>result := (result (jobs s r))\<lparr>status := st\<rparr>\<rparr>)\<rparr>"

definition write_event :: "nat \<Rightarrow> exn \<Rightarrow> state \<Rightarrow> state" where
  "write_event r e s =
     s\<lparr>jobs := (jobs s)(r := (jobs s r)\<lparr>result :=
          (result (jobs s r))\<lparr>events := events (result (jobs s r)) @ [e]\<rparr>\<rparr>)\<rparr>"

text \<open>\<open>self.current_job.result.status = st\<close> and \<open>self.current_job.result.add_event(e)\<close>\<close>

definition set_status :: "status \<Rightarrow> action" where
  "set_status st = with_current_job (\<lambda>r. modify (write_status r st))"

definition add_event :: "exn \<Rightarrow> action" where
  "add_event e = with_current_job (\<lambda>r. modify (write_event r e))"

text \<open>\<open>self.current_job.result.status == st\<close>\<close>

definition status_is :: "status \<Rightarrow> state \<Rightarrow> exn + bool" where
  "status_is st s =
     (case job_queue s of
        [] \<Rightarrow> Inl AttributeError
      | r # _ \<Rightarrow> Inr (status (result (jobs s r)) = st))"

text \<open>\<open>spec.enabled = False\<close>\<close>

definition disable_spec :: "nat \<Rightarrow> action" where
  "disable_spec sp = modify (\<lambda>s. s\<lparr>enabled := (enabled s)(sp := False)\<rparr>)"

subsection \<open>\<open>Runner._handle_errors\<close>\<close>

text \<open>
  \<^verbatim>\<open>
  try:
      yield
  except (KeyboardInterrupt, DeviceNotRespondingError):
      raise
  except (WAError, TimeoutError), we:
      self.device.check_responsive()
      if self.current_job:
          self.current_job.result.status = on_error_status
          self.current_job.result.add_event(str(we))
      try:
          self._take_screenshot('error.png')
      except Exception, e:
          pass
      ...
  except Exception, e:
      if self.current_job:
          self.current_job.result.status = on_error_status
          self.current_job.result.add_event(error_text)
      ...
  \<close>
  \<open>on_error\<close> is the except clauses, \<open>record_error\<close> the two assignments under
  \<open>if self.current_job\<close>.
\<close>

definition record_error :: "status \<Rightarrow> exn \<Rightarrow> action" where
  "record_error st e =
     modify (\<lambda>s. case job_queue s of [] \<Rightarrow> s | r # _ \<Rightarrow> write_event r e (write_status r st s))"

definition take_screenshot :: "environment \<Rightarrow> action" where
  "take_screenshot env = call env device_capture_screen"

definition on_error :: "environment \<Rightarrow> status \<Rightarrow> exn \<Rightarrow> action" where
  "on_error env on_error_status e =
     (if e = KeyboardInterrupt \<or> e = DeviceNotRespondingError then raise e
      else if is_WAError e \<or> e = TimeoutError then
        block [
          call env device_check_responsive,
          record_error on_error_status e,
          try_except (take_screenshot env) (\<lambda>e'. if is_Exception e' then skip else raise e')]
      else if is_Exception e then record_error on_error_status e
      else raise e)"

definition handle_errors :: "environment \<Rightarrow> status \<Rightarrow> action \<Rightarrow> action" where
  "handle_errors env on_error_status body = try_except body (on_error env on_error_status)"

subsection \<open>Booting and flashing\<close>

definition MAX_REBOOT_ATTEMPTS :: nat where
  "MAX_REBOOT_ATTEMPTS = 3"

text \<open>\<open>self.device.boot(**self.current_job.spec.boot_parameters)\<close>\<close>

definition boot :: "environment \<Rightarrow> action" where
  "boot env = with_current_job (\<lambda>r. call env device_boot)"

text \<open>
  \<^verbatim>\<open>
  for reboot_attempts in xrange(MAX_REBOOT_ATTEMPTS):
      with self._handle_errors('Rebooting device'):
          self.device.boot(**self.current_job.spec.boot_parameters)
          break
  else:
      raise DeviceError('Could not reboot device; max reboot attempts exceeded.')
  \<close>
  The argument counts the attempts that are left. A boot that returns leaves the loop
  by \<open>break\<close>; one that raises goes through the error handler, and if that swallows the
  exception the next attempt follows; the \<open>else\<close> clause runs when none is left.
\<close>

fun reboot_attempts :: "environment \<Rightarrow> nat \<Rightarrow> action" where
  "reboot_attempts env 0 = raise DeviceError"
| "reboot_attempts env (Suc n) =
     try_except (boot env) (\<lambda>e. seq (on_error env FAILED e) (reboot_attempts env n))"

text \<open>
  \<^verbatim>\<open>
  def _reboot_device(self):
      with self._signal_wrap('BOOT'):
          for ...: ... else: ...
          self.device.connect()

  def _flash_device(self, flashing_params):
      with self._signal_wrap('FLASHING'):
          self.device.flash(**flashing_params)
          self.device.connect()
  \<close>
\<close>

definition reboot_device :: "environment \<Rightarrow> action" where
  "reboot_device env =
     signal_wrap BOOT (block [reboot_attempts env MAX_REBOOT_ATTEMPTS, call env device_connect])"

definition flash_device :: "environment \<Rightarrow> action" where
  "flash_device env = signal_wrap FLASHING (block [call env device_flash, call env device_connect])"


subsection \<open>One iteration of a workload\<close>

text \<open>
  \<^verbatim>\<open>
  def _run_workload_iteration(self, workload):
      with self._signal_wrap('WORKLOAD_SETUP'):
          try:
              workload.setup(self.context)
          except:
              self.current_job.spec.enabled = False
              raise
      try:
          with self._handle_errors('Running workload'):
              with self._signal_wrap('WORKLOAD_EXECUTION'):
                  workload.run(self.context)
          self._send(signal.BEFORE_WORKLOAD_RESULT_UPDATE)
          try:
              if self.current_job.result.status != IterationResult.FAILED:
                  with self._handle_errors('Processing workload result',
                                           on_error_status=IterationResult.PARTIAL):
                      workload.update_result(self.context)
                      self._send(signal.SUCCESSFUL_WORKLOAD_RESULT_UPDATE)
              if self.current_job.result.status == IterationResult.RUNNING:
                  self.current_job.result.status = IterationResult.OK
          finally:
              self._send(signal.AFTER_WORKLOAD_RESULT_UPDATE)
      finally:
          with self._handle_errors('Tearing down workload',
                                   on_error_status=IterationResult.NONCRITICAL):
              with self._signal_wrap('WORKLOAD_TEARDOWN'):
                  workload.teardown(self.context)
          self.result_manager.add_result(self.current_job.result, self.context)
  \<close>
  The argument is the spec whose workload runs.
\<close>

definition run_workload_iteration :: "environment \<Rightarrow> nat \<Rightarrow> action" where
  "run_workload_iteration env sp =
     seq
       (signal_wrap WORKLOAD_SETUP
          (try_except (call env (workload_setup sp))
             (\<lambda>e. block [with_current_job (\<lambda>r. read (\<lambda>s. spec (jobs s r)) disable_spec),
                         raise e])))
       (try_finally
          (block [
             handle_errors env FAILED
               (signal_wrap WORKLOAD_EXECUTION (call env (workload_run sp))),
             send BEFORE_WORKLOAD_RESULT_UPDATE,
             try_finally
               (block [
                  cond_prop (status_is FAILED) skip
                    (handle_errors env PARTIAL
                       (block [call env (workload_update_result sp),
                               send SUCCESSFUL_WORKLOAD_RESULT_UPDATE])),
                  cond_prop (status_is RUNNING) (set_status OK) skip])
               (send AFTER_WORKLOAD_RESULT_UPDATE)])
          (block [
             handle_errors env NONCRITICAL
               (signal_wrap WORKLOAD_TEARDOWN (call env (workload_teardown sp))),
             call env result_manager_add_result]))"

subsection \<open>\<open>Runner._init_job\<close>, \<open>_run_job\<close> and \<open>_finalize_job\<close>\<close>

text \<open>
  \<^verbatim>\<open>
  def _init_job(self):
      self.current_job.result.status = IterationResult.RUNNING
      self.context.next_job(self.current_job)
  \<close>
\<close>

definition init_job :: "environment \<Rightarrow> config \<Rightarrow> action" where
  "init_job env cfg = block [set_status RUNNING, with_current_job (next_job env cfg)]"

text \<open>
  The reboot decision of \<open>_run_job\<close>:
  \<^verbatim>\<open>
  if spec.flash:
      if not self.context.reboot_policy.can_reboot:
          raise ConfigError('Cannot flash as reboot_policy does not permit rebooting.')
      if not self.device.can('flash'):
          raise DeviceError('Device does not support flashing.')
      self._flash_device(spec.flash)
  elif not self.completed_jobs:
      pass
  elif self.context.reboot_policy.reboot_on_each_spec and self.spec_changed:
      self._reboot_device()
  elif self.context.reboot_policy.reboot_on_each_iteration:
      self._reboot_device()
  \<close>
\<close>

definition reboot_decision :: "environment \<Rightarrow> config \<Rightarrow> nat \<Rightarrow> action" where
  "reboot_decision env cfg sp =
     (if flash (spec_of cfg sp) then
        block [
          (if \<not> can_reboot cfg then raise ConfigError else skip),
          (if \<not> can_flash env then raise DeviceError else skip),
          flash_device env]
      else
        cond (\<lambda>s. completed_jobs s = []) skip
          (cond_prop (\<lambda>s. if reboot_on_each_spec cfg then spec_changed cfg s else Inr False)
             (reboot_device env)
             (if reboot_on_each_iteration cfg then reboot_device env else skip)))"

text \<open>
  The rest of \<open>_run_job\<close>:
  \<^verbatim>\<open>
  spec = self.current_job.spec
  if not spec.enabled:
      self.current_job.result.status = IterationResult.SKIPPED
      return
  ... the reboot decision ...
  instrumentation.disable_all()
  instrumentation.enable(spec.instrumentation)
  self.device_manager.start()
  if self.spec_changed:
      self._send(signal.WORKLOAD_SPEC_START)
  self._send(signal.ITERATION_START)
  try:
      setup_ok = False
      with self._handle_errors('Setting up device parameters'):
          self.device_manager.set_runtime_parameters(spec.runtime_parameters)
          setup_ok = True
      if setup_ok:
          with self._handle_errors('running {}'.format(spec.workload.name)):
              self.current_job.result.status = IterationResult.RUNNING
              self._run_workload_iteration(spec.workload)
      else:
          spec.enabled = False
  except KeyboardInterrupt:
      self._send(signal.ITERATION_END)
      self._send(signal.WORKLOAD_SPEC_END)
      raise
  else:
      self._send(signal.ITERATION_END)
      if self.spec_will_change or not spec.enabled:
          self._send(signal.WORKLOAD_SPEC_END)
  finally:
      self.device_manager.stop()
  \<close>
\<close>

definition will_change_or_disabled :: "config \<Rightarrow> nat \<Rightarrow> state \<Rightarrow> exn + bool" where
  "will_change_or_disabled cfg sp s =
     (case spec_will_change cfg s of
        Inl e \<Rightarrow> Inl e
      | Inr b \<Rightarrow> Inr (b \<or> \<not> enabled s sp))"

definition run_job :: "environment \<Rightarrow> config \<Rightarrow> action" where
  "run_job env cfg =
     with_current_job (\<lambda>r. read (\<lambda>s. spec (jobs s r)) (\<lambda>sp.
       cond (\<lambda>s. \<not> enabled s sp) (set_status SKIPPED)
         (block [
            reboot_decision env cfg sp,
            call env instrumentation_disable_all,
            call env instrumentation_enable,
            call env device_manager_start,
            cond_prop (spec_changed cfg) (send WORKLOAD_SPEC_START) skip,
            send ITERATION_START,
            try_finally
              (try_except_else
                 (block [
                    modify (\<lambda>s. s\<lparr>setup_ok := False\<rparr>),
                    handle_errors env FAILED
                      (block [call env device_manager_set_runtime_parameters,
                              modify (\<lambda>s. s\<lparr>setup_ok := True\<rparr>)]),
                    cond setup_ok
                      (handle_errors env FAILED
                         (block [set_status RUNNING, run_workload_iteration env sp]))
                      (disable_spec sp)])
                 (\<lambda>e. if e = KeyboardInterrupt
                       then block [send ITERATION_END, send WORKLOAD_SPEC_END, raise e]
                       else raise e)
                 (block [
                    send ITERATION_END,
                    cond_prop (will_change_or_disabled cfg sp) (send WORKLOAD_SPEC_END) skip]))
              (call env device_manager_stop)])))"

text \<open>
  \<^verbatim>\<open>
  def _finalize_job(self):
      self.context.run_result.iteration_results.append(self.current_job.result)
      job = self.job_queue.pop(0)
      job.iteration = self.context.current_iteration
      if job.result.status in self.config.retry_on_status:
          if job.retry >= self.config.max_retries:
              self.logger.error('Exceeded maxium number of retries. Abandoning job.')
          else:
              self.logger.info('Job status was {}. Retrying...'.format(job.result.status))
              retry_job = RunnerJob(job.spec, job.retry + 1)
              self.job_queue.insert(0, retry_job)
      self.completed_jobs.append(job)
      self.context.end_job()
  \<close>
\<close>

definition insert_retry_job :: "nat \<Rightarrow> action" where
  "insert_retry_job job s =
     (case RunnerJob_init (spec (jobs s job)) (retry (jobs s job) + 1) s of
        (retry_job, s1) \<Rightarrow> (None, s1\<lparr>job_queue := retry_job # job_queue s1\<rparr>))"

definition finalize_job :: "config \<Rightarrow> action" where
  "finalize_job cfg =
     with_current_job (\<lambda>job.
       block [
         modify (\<lambda>s. s\<lparr>iteration_results := iteration_results s @ [job]\<rparr>),
         modify (\<lambda>s. s\<lparr>job_queue := tl (job_queue s)\<rparr>),
         modify (\<lambda>s. s\<lparr>jobs := (jobs s)(job := (jobs s job)\<lparr>iteration := current_iteration cfg s\<rparr>)\<rparr>),
         cond (\<lambda>s. status (result (jobs s job)) \<in> set (retry_on_status cfg))
           (cond (\<lambda>s. retry (jobs s job) \<ge> max_retries cfg) skip (insert_retry_job job))
           skip,
         modify (\<lambda>s. s\<lparr>completed_jobs := completed_jobs s @ [job]\<rparr>),
         end_job])"

subsection \<open>The job loop of \<open>Runner.run\<close>\<close>

text \<open>
  The except clauses of the inner try statement:
  \<^verbatim>\<open>
  except KeyboardInterrupt:
      self.current_job.result.status = IterationResult.ABORTED
      raise
  except Exception, e:
      self.current_job.result.status = IterationResult.FAILED
      self.current_job.result.add_event(e.message)
      if isinstance(e, DeviceNotRespondingError):
          if self.context.reboot_policy.can_reboot and self.device.can('reset_power'):
              try:
                  self.device.boot(hard=True)
                  self.device.connect()
              except DeviceError:  # hard_boot not implemented for the device.
                  raise e
          else:
              raise e
      else:  # not a DeviceNotRespondingError
          self.logger.error(e)
  \<close>
\<close>

definition job_failed :: "environment \<Rightarrow> config \<Rightarrow> exn \<Rightarrow> action" where
  "job_failed env cfg e =
     (if e = KeyboardInterrupt then block [set_status ABORTED, raise e]
      else if is_Exception e then
        block [
          set_status FAILED,
          add_event e,
          (if e = DeviceNotRespondingError then
             (if can_reboot cfg \<and> can_reset_power env then
                try_except (block [call env device_boot_hard, call env device_connect])
                  (\<lambda>e'. if is_DeviceError env e' then raise e else raise e')
              else raise e)
           else skip)]
      else raise e)"

text \<open>
  One turn of the loop:
  \<^verbatim>\<open>
  try:
      self._init_job()
      self._run_job()
  except ...
  finally:
      self._finalize_job()
  \<close>
  \<open>job_attempt\<close> is the statement without its finally clause.
\<close>

definition job_body :: "environment \<Rightarrow> config \<Rightarrow> action" where
  "job_body env cfg = block [init_job env cfg, run_job env cfg]"

definition job_attempt :: "environment \<Rightarrow> config \<Rightarrow> action" where
  "job_attempt env cfg = try_except (job_body env cfg) (job_failed env cfg)"

definition job_turn :: "environment \<Rightarrow> config \<Rightarrow> action" where
  "job_turn env cfg = try_finally (job_attempt env cfg) (finalize_job cfg)"

text \<open>
  One turn of a loop that skips through the remaining jobs:
  \<^verbatim>\<open>
  self.context.next_job(self.current_job)
  self.current_job.result.status = IterationResult.ABORTED    # or SKIPPED
  self._finalize_job()
  \<close>
\<close>

definition skip_turn :: "environment \<Rightarrow> config \<Rightarrow> status \<Rightarrow> action" where
  "skip_turn env cfg st =
     block [with_current_job (next_job env cfg), set_status st, finalize_job cfg]"


subsection \<open>What a piece of code leaves as it is\<close>

text \<open>
  \<open>maintains I a\<close>: if \<open>I\<close> holds before \<open>a\<close>, it holds after it, however \<open>a\<close> ends.
  Every way of putting code together keeps this, so a property of the primitive
  assignments of the job body carries over to the whole body.
\<close>

definition maintains :: "(state \<Rightarrow> bool) \<Rightarrow> action \<Rightarrow> bool" where
  "maintains I a \<longleftrightarrow> (\<forall>s. I s \<longrightarrow> I (snd (a s)))"

lemma maintainsD: "maintains I a \<Longrightarrow> I s \<Longrightarrow> I (snd (a s))"
  by (simp add: maintains_def)

lemma maintains_skip: "maintains I skip"
  by (simp add: maintains_def skip_def)

lemma maintains_raise: "maintains I (raise e)"
  by (simp add: maintains_def raise_def)

lemma maintains_modify: "(\<And>s. I s \<Longrightarrow> I (f s)) \<Longrightarrow> maintains I (modify f)"
  by (simp add: maintains_def modify_def)

lemma maintains_seq: "maintains I a \<Longrightarrow> maintains I b \<Longrightarrow> maintains I (seq a b)"
  by (auto simp: maintains_def seq_def split: prod.splits option.splits)

lemma maintains_block_Nil: "maintains I (block [])"
  by (simp add: maintains_skip)

lemma maintains_block_Cons:
  "maintains I a \<Longrightarrow> maintains I (block as) \<Longrightarrow> maintains I (block (a # as))"
  by (simp add: maintains_seq)

lemma maintains_cond: "maintains I a \<Longrightarrow> maintains I b \<Longrightarrow> maintains I (cond p a b)"
  by (simp add: maintains_def cond_def)

lemma maintains_if: "maintains I a \<Longrightarrow> maintains I b \<Longrightarrow> maintains I (if p then a else b)"
  by simp

lemma maintains_read: "(\<And>x. maintains I (k x)) \<Longrightarrow> maintains I (read f k)"
  by (simp add: maintains_def read_def)

lemma maintains_cond_prop:
  "maintains I a \<Longrightarrow> maintains I b \<Longrightarrow> maintains I (cond_prop p a b)"
  by (simp add: maintains_def cond_prop_def split: sum.splits)

lemma maintains_with_current_job:
  "(\<And>r. maintains I (k r)) \<Longrightarrow> maintains I (with_current_job k)"
  by (simp add: maintains_def with_current_job_def split: list.splits)

lemma maintains_try_except:
  "maintains I a \<Longrightarrow> (\<And>e. maintains I (h e)) \<Longrightarrow> maintains I (try_except a h)"
  by (auto simp: maintains_def try_except_def split: prod.splits option.splits)

lemma maintains_try_except_else:
  "maintains I a \<Longrightarrow> (\<And>e. maintains I (h e)) \<Longrightarrow> maintains I b
     \<Longrightarrow> maintains I (try_except_else a h b)"
  by (auto simp: maintains_def try_except_else_def split: prod.splits option.splits)

lemma maintains_try_finally:
  "maintains I a \<Longrightarrow> maintains I f \<Longrightarrow> maintains I (try_finally a f)"
  by (auto simp: maintains_def try_finally_def split: prod.splits option.splits)

lemma maintains_for_each: "(\<And>x. maintains I (f x)) \<Longrightarrow> maintains I (for_each f xs)"
  unfolding for_each_def by (induction xs) (simp_all add: maintains_skip maintains_seq)

lemmas maintains_intros =
  maintains_skip maintains_raise maintains_seq maintains_block_Nil maintains_block_Cons
  maintains_cond maintains_if maintains_read maintains_cond_prop maintains_with_current_job
  maintains_try_except maintains_try_except_else maintains_try_finally maintains_for_each

text \<open>
  The assignments the body of a job makes: a signal or a call is recorded, the call counter changes, a status from \<open>sts\<close> or an event is written to the
  result of the job at the head of the queue, a spec is disabled, \<open>setup_ok\<close> is set.
\<close>

definition body_stable :: "status set \<Rightarrow> (state \<Rightarrow> bool) \<Rightarrow> bool" where
  "body_stable sts I \<longleftrightarrow>
     (\<forall>s ev. I s \<and> \<not> is_marker ev \<longrightarrow> I (s\<lparr>trace := trace s @ [ev]\<rparr>))
     \<and> (\<forall>s n. I s \<longrightarrow> I (s\<lparr>tick := n\<rparr>))
     \<and> (\<forall>s r rest st. I s \<and> job_queue s = r # rest \<and> st \<in> sts \<longrightarrow> I (write_status r st s))
     \<and> (\<forall>s r rest e. I s \<and> job_queue s = r # rest \<longrightarrow> I (write_event r e s))
     \<and> (\<forall>s f. I s \<longrightarrow> I (s\<lparr>enabled := f\<rparr>))
     \<and> (\<forall>s b. I s \<longrightarrow> I (s\<lparr>setup_ok := b\<rparr>))"

lemma stable_send: "body_stable sts I \<Longrightarrow> maintains I (send sg)"
  by (simp add: body_stable_def send_def maintains_modify)

lemma stable_call: "body_stable sts I \<Longrightarrow> maintains I (call env c)"
proof -
  assume st: "body_stable sts I"
  have "I (s\<lparr>trace := trace s @ [Called c], tick := Suc (tick s)\<rparr>)" if "I s" for s
  proof -
    from st that have "I (s\<lparr>trace := trace s @ [Called c]\<rparr>)" by (simp add: body_stable_def)
    with st have "I (s\<lparr>trace := trace s @ [Called c]\<rparr>\<lparr>tick := Suc (tick s)\<rparr>)"
      unfolding body_stable_def by blast
    then show ?thesis by simp
  qed
  then show ?thesis by (simp add: maintains_def call_def)
qed

lemma write_status_queue [simp]: "job_queue (write_status r st s) = job_queue s"
  by (simp add: write_status_def)

lemma write_event_queue [simp]: "job_queue (write_event r e s) = job_queue s"
  by (simp add: write_event_def)

lemma stable_set_status: "body_stable sts I \<Longrightarrow> st \<in> sts \<Longrightarrow> maintains I (set_status st)"
  by (auto simp: body_stable_def set_status_def with_current_job_def modify_def maintains_def
      split: list.splits)

lemma stable_add_event: "body_stable sts I \<Longrightarrow> maintains I (add_event e)"
  by (auto simp: body_stable_def add_event_def with_current_job_def modify_def maintains_def
      split: list.splits)

lemma stable_record_error:
  "body_stable sts I \<Longrightarrow> st \<in> sts \<Longrightarrow> maintains I (record_error st e)"
proof -
  assume st: "body_stable sts I" and m: "st \<in> sts"
  have "I (write_event r e (write_status r st s))" if "I s" "job_queue s = r # rest" for s r rest
  proof -
    from st m that have "I (write_status r st s)" unfolding body_stable_def by blast
    moreover have "job_queue (write_status r st s) = r # rest" using that by simp
    ultimately show ?thesis using st unfolding body_stable_def by blast
  qed
  then show ?thesis
    by (auto simp: record_error_def modify_def maintains_def split: list.splits)
qed

lemma stable_disable_spec: "body_stable sts I \<Longrightarrow> maintains I (disable_spec sp)"
  by (simp add: body_stable_def disable_spec_def maintains_modify)

lemma stable_setup_ok:
  "body_stable sts I \<Longrightarrow> maintains I (modify (\<lambda>s. s\<lparr>setup_ok := b\<rparr>))"
  by (simp add: body_stable_def maintains_modify)

lemmas stable_intros =
  stable_send stable_call stable_set_status stable_add_event stable_record_error
  stable_disable_spec stable_setup_ok

lemma on_error_maintains:
  "body_stable sts I \<Longrightarrow> st \<in> sts \<Longrightarrow> maintains I (on_error env st e)"
  unfolding on_error_def take_screenshot_def
  by (intro maintains_intros stable_intros; assumption)

lemma handle_errors_maintains:
  "body_stable sts I \<Longrightarrow> st \<in> sts \<Longrightarrow> maintains I a \<Longrightarrow> maintains I (handle_errors env st a)"
  unfolding handle_errors_def
  by (intro maintains_intros on_error_maintains; assumption)

lemma signal_wrap_maintains:
  "body_stable sts I \<Longrightarrow> maintains I a \<Longrightarrow> maintains I (signal_wrap X a)"
  unfolding signal_wrap_def
  by (intro maintains_intros stable_intros; assumption)

lemma reboot_attempts_maintains:
  "body_stable sts I \<Longrightarrow> FAILED \<in> sts \<Longrightarrow> maintains I (reboot_attempts env n)"
proof (induction n)
  case 0
  then show ?case by (simp add: maintains_raise)
next
  case (Suc n)
  then have ih: "maintains I (reboot_attempts env n)" by simp
  show ?case
    unfolding reboot_attempts.simps boot_def
    using Suc.prems ih
    by - (intro maintains_intros stable_intros on_error_maintains; assumption)
qed

lemma reboot_device_maintains:
  "body_stable sts I \<Longrightarrow> FAILED \<in> sts \<Longrightarrow> maintains I (reboot_device env)"
  unfolding reboot_device_def
  by (intro signal_wrap_maintains maintains_intros stable_intros reboot_attempts_maintains;
      assumption)

lemma flash_device_maintains:
  "body_stable sts I \<Longrightarrow> maintains I (flash_device env)"
  unfolding flash_device_def
  by (intro signal_wrap_maintains maintains_intros stable_intros; assumption)

lemma run_workload_iteration_maintains:
  "body_stable sts I \<Longrightarrow> FAILED \<in> sts \<Longrightarrow> PARTIAL \<in> sts \<Longrightarrow> NONCRITICAL \<in> sts
     \<Longrightarrow> OK \<in> sts \<Longrightarrow> maintains I (run_workload_iteration env sp)"
  unfolding run_workload_iteration_def
  by (intro signal_wrap_maintains handle_errors_maintains maintains_intros stable_intros;
      assumption)

lemma reboot_decision_maintains:
  "body_stable sts I \<Longrightarrow> FAILED \<in> sts \<Longrightarrow> maintains I (reboot_decision env cfg sp)"
  unfolding reboot_decision_def
  by (intro flash_device_maintains reboot_device_maintains maintains_intros; assumption)

lemma run_job_maintains:
  "body_stable sts I \<Longrightarrow> RUNNING \<in> sts \<Longrightarrow> SKIPPED \<in> sts \<Longrightarrow> FAILED \<in> sts
     \<Longrightarrow> PARTIAL \<in> sts \<Longrightarrow> NONCRITICAL \<in> sts \<Longrightarrow> OK \<in> sts
     \<Longrightarrow> maintains I (run_job env cfg)"
  unfolding run_job_def
  by (intro reboot_decision_maintains run_workload_iteration_maintains
        handle_errors_maintains maintains_intros stable_intros;
      assumption)

text \<open>
  The assignments of \<open>ExecutionContext.next_job\<close>: those that follow the first two
  statements (\<open>dir_stable\<close>), and all of them (\<open>ctx_stable\<close>).
\<close>

definition dir_stable :: "(state \<Rightarrow> bool) \<Rightarrow> bool" where
  "dir_stable I \<longleftrightarrow>
     (\<forall>s d. I s \<longrightarrow> I (s\<lparr>output_directory := d\<rparr>))
     \<and> (\<forall>s a. I s \<longrightarrow> I (s\<lparr>iteration_artifacts := a\<rparr>))
     \<and> (\<forall>s r it d. I s \<longrightarrow> I (set_result_fields r it d s))"

definition ctx_stable :: "(state \<Rightarrow> bool) \<Rightarrow> bool" where
  "ctx_stable I \<longleftrightarrow>
     (\<forall>s r. I s \<longrightarrow> I (s\<lparr>ctx_current_job := Some r\<rparr>))
     \<and> (\<forall>s c. I s \<longrightarrow> I (s\<lparr>job_iteration_counts := c\<rparr>))
     \<and> dir_stable I"

text \<open>\<open>next_job\<close> after its first two statements.\<close>

definition next_job_rest :: "environment \<Rightarrow> config \<Rightarrow> nat \<Rightarrow> action" where
  "next_job_rest env cfg job =
     block [
       cond (\<lambda>s. \<not> aborted s)
         (block [
            call env ensure_directory_exists,
            modify (\<lambda>s. s\<lparr>output_directory :=
               Some (os_path_join (run_output_directory s) (outdir_name cfg s))\<rparr>),
            modify (\<lambda>s. s\<lparr>iteration_artifacts :=
               Some (workload_artifacts (spec_of cfg (spec (jobs s job))))\<rparr>)])
         skip,
       modify (\<lambda>s. set_result_fields job (current_iteration cfg s) (output_directory s) s)]"

lemma next_job_rest_maintains:
  "body_stable sts I \<Longrightarrow> dir_stable I \<Longrightarrow> maintains I (next_job_rest env cfg job)"
  unfolding next_job_rest_def
  by (intro maintains_intros stable_intros maintains_modify;
      (assumption | simp add: dir_stable_def))

lemma next_job_maintains:
  "body_stable sts I \<Longrightarrow> ctx_stable I \<Longrightarrow> maintains I (next_job env cfg job)"
  unfolding next_job_def
  by (intro maintains_intros stable_intros maintains_modify;
      (assumption | simp add: ctx_stable_def dir_stable_def))

lemma init_job_maintains:
  "body_stable sts I \<Longrightarrow> ctx_stable I \<Longrightarrow> RUNNING \<in> sts \<Longrightarrow> maintains I (init_job env cfg)"
  unfolding init_job_def
  by (intro maintains_intros stable_intros next_job_maintains; assumption)

lemma job_body_maintains:
  "body_stable sts I \<Longrightarrow> ctx_stable I \<Longrightarrow> RUNNING \<in> sts \<Longrightarrow> SKIPPED \<in> sts
     \<Longrightarrow> FAILED \<in> sts \<Longrightarrow> PARTIAL \<in> sts \<Longrightarrow> NONCRITICAL \<in> sts \<Longrightarrow> OK \<in> sts
     \<Longrightarrow> maintains I (job_body env cfg)"
  unfolding job_body_def
  by (intro maintains_intros init_job_maintains run_job_maintains; assumption)

lemma job_failed_maintains:
  "body_stable sts I \<Longrightarrow> ABORTED \<in> sts \<Longrightarrow> FAILED \<in> sts
     \<Longrightarrow> maintains I (job_failed env cfg e)"
  unfolding job_failed_def
  by (intro maintains_intros stable_intros; assumption)

subsection \<open>The loops terminate\<close>

text \<open>
  Every job in the queue stands for itself and for the retries it may still cause:
  \<open>max_retries - retry\<close> of them at most. A turn of either loop takes the head off the
  queue and puts back at most one job, of one retry more, so the sum goes down.
\<close>

definition budget :: "config \<Rightarrow> state \<Rightarrow> nat" where
  "budget cfg s =
     sum_list (map (\<lambda>r. Suc (nat (max_retries cfg - retry (jobs s r)))) (job_queue s))"

definition same_queue :: "state \<Rightarrow> state \<Rightarrow> bool" where
  "same_queue s0 s \<longleftrightarrow>
     job_queue s = job_queue s0 \<and> (\<forall>r. retry (jobs s r) = retry (jobs s0 r))"

lemma same_queue_refl: "same_queue s s"
  by (simp add: same_queue_def)

lemma same_queue_budget: "same_queue s0 s \<Longrightarrow> budget cfg s = budget cfg s0"
  by (simp add: same_queue_def budget_def)

lemma same_queue_body_stable: "body_stable UNIV (same_queue s0)"
  by (simp add: body_stable_def same_queue_def write_status_def write_event_def)

lemma same_queue_ctx_stable: "ctx_stable (same_queue s0)"
  by (simp add: ctx_stable_def dir_stable_def same_queue_def set_result_fields_def)

lemma fold_max_ge: "n \<le> fold max xs (n::nat)"
proof (induction xs arbitrary: n)
  case Nil
  then show ?case by simp
next
  case (Cons x xs)
  have "n \<le> max x n" by simp
  also have "\<dots> \<le> fold max xs (max x n)" by (rule Cons.IH)
  finally show ?case by simp
qed

lemma fold_max_mem: "x \<in> set xs \<Longrightarrow> x \<le> fold max xs (n::nat)"
proof (induction xs arbitrary: n)
  case Nil
  then show ?case by simp
next
  case (Cons y ys)
  show ?case
  proof (cases "x = y")
    case True
    have "x \<le> max y n" using True by simp
    also have "\<dots> \<le> fold max ys (max y n)" by (rule fold_max_ge)
    finally show ?thesis by simp
  next
    case False
    with Cons.prems have "x \<in> set ys" by simp
    then show ?thesis using Cons.IH by simp
  qed
qed

lemma fresh_gt: "r \<in> set (referenced s) \<Longrightarrow> r < fresh s"
proof -
  assume "r \<in> set (referenced s)"
  then have "Suc r \<in> set (map Suc (referenced s))" by simp
  then have "Suc r \<le> fold max (map Suc (referenced s)) (next_ref s)"
    by (rule fold_max_mem)
  then show ?thesis by (simp add: fresh_def)
qed

definition retried :: "config \<Rightarrow> state \<Rightarrow> nat \<Rightarrow> bool" where
  "retried cfg s job \<longleftrightarrow>
     status (result (jobs s job)) \<in> set (retry_on_status cfg)
     \<and> retry (jobs s job) < max_retries cfg"

definition popped :: "config \<Rightarrow> nat \<Rightarrow> state \<Rightarrow> state" where
  "popped cfg job s =
     s\<lparr>iteration_results := iteration_results s @ [job],
       job_queue := tl (job_queue s),
       jobs := (jobs s)(job := (jobs s job)\<lparr>iteration := current_iteration cfg s\<rparr>)\<rparr>"

definition finalized :: "config \<Rightarrow> nat \<Rightarrow> state \<Rightarrow> state" where
  "finalized cfg job s =
     (if retried cfg s job
      then (popped cfg job s)
             \<lparr>jobs := (jobs (popped cfg job s))
                (fresh (popped cfg job s) :=
                   new_RunnerJob (spec (jobs s job)) (retry (jobs s job) + 1)),
              next_ref := Suc (fresh (popped cfg job s)),
              job_queue := fresh (popped cfg job s) # tl (job_queue s),
              completed_jobs := completed_jobs s @ [job]\<rparr>
      else (popped cfg job s)\<lparr>completed_jobs := completed_jobs s @ [job]\<rparr>)"

lemma seq_skip [simp]: "seq a skip = a"
  by (rule ext) (simp add: seq_def skip_def split: prod.splits option.splits)

lemma seq_modify [simp]: "seq (modify f) a s = a (f s)"
  by (simp add: seq_def modify_def)

lemma seq_skip_left [simp]: "seq skip a = a"
  by (rule ext) (simp add: seq_def skip_def)

lemma seq_cond: "seq (cond p a b) c s = (if p s then seq a c s else seq b c s)"
  by (simp add: seq_def cond_def)

lemma current_iteration_upd [simp]:
  "current_iteration cfg (s\<lparr>iteration_results := x\<rparr>) = current_iteration cfg s"
  "current_iteration cfg (s\<lparr>job_queue := y\<rparr>) = current_iteration cfg s"
  by (simp_all add: current_iteration_def split: option.splits)

lemma insert_retry_job_modify:
  "insert_retry_job job =
     modify (\<lambda>s. s\<lparr>jobs := (jobs s)(fresh s :=
                       new_RunnerJob (spec (jobs s job)) (retry (jobs s job) + 1)),
                    next_ref := Suc (fresh s),
                    job_queue := fresh s # job_queue s\<rparr>)"
  by (rule ext) (simp add: insert_retry_job_def RunnerJob_init_def Let_def modify_def)

lemma finalize_job_eq:
  "job_queue s = job # rest \<Longrightarrow> finalize_job cfg s = end_job (finalized cfg job s)"
  by (simp add: finalize_job_def with_current_job_def seq_cond insert_retry_job_modify
      finalized_def popped_def retried_def not_le)

lemma end_job_queue [simp]: "job_queue (snd (end_job s)) = job_queue s"
  by (simp add: end_job_def split: option.splits)

lemma end_job_jobs [simp]: "jobs (snd (end_job s)) = jobs s"
  by (simp add: end_job_def split: option.splits)

lemma fresh_popped_notin:
  "job_queue s = job # rest \<Longrightarrow> fresh (popped cfg job s) \<notin> set rest \<union> {job}"
proof -
  assume q: "job_queue s = job # rest"
  have "r < fresh (popped cfg job s)" if "r \<in> set rest \<union> {job}" for r
    using that q by (intro fresh_gt) (auto simp: referenced_def popped_def)
  then show ?thesis by blast
qed

lemma finalize_job_budget:
  assumes "job_queue s \<noteq> []"
  shows "budget cfg (snd (finalize_job cfg s)) < budget cfg s"
proof -
  from assms obtain job rest where q: "job_queue s = job # rest" by (cases "job_queue s") auto
  let ?w = "\<lambda>s r. Suc (nat (max_retries cfg - retry (jobs s r)))"
  have "map (?w (finalized cfg job s)) rest = map (?w s) rest"
    using fresh_popped_notin [OF q, of cfg]
    by (intro map_cong) (auto simp: finalized_def popped_def)
  then have rest: "sum_list (map (?w (finalized cfg job s)) rest) = sum_list (map (?w s) rest)"
    by (simp only:)
  show ?thesis
  proof (cases "retried cfg s job")
    case True
    then have "job_queue (finalized cfg job s) = fresh (popped cfg job s) # rest"
      and "retry (jobs (finalized cfg job s) (fresh (popped cfg job s))) = retry (jobs s job) + 1"
      and "retry (jobs s job) < max_retries cfg"
      using q by (simp_all add: finalized_def new_RunnerJob_def retried_def)
    then show ?thesis using q rest
      by (simp add: finalize_job_eq [OF q] budget_def)
  next
    case False
    then have "job_queue (finalized cfg job s) = rest"
      using q by (simp add: finalized_def popped_def)
    then show ?thesis using q rest
      by (simp add: finalize_job_eq [OF q] budget_def)
  qed
qed

lemma job_attempt_maintains:
  "body_stable UNIV I \<Longrightarrow> ctx_stable I \<Longrightarrow> maintains I (job_attempt env cfg)"
  unfolding job_attempt_def
  by (intro maintains_intros job_body_maintains [where sts = UNIV]
        job_failed_maintains [where sts = UNIV]) simp_all

lemma job_turn_budget:
  assumes "job_queue s \<noteq> []"
  shows "budget cfg (snd (job_turn env cfg s)) < budget cfg s"
proof -
  have "maintains (same_queue s) (job_attempt env cfg)"
    by (intro job_attempt_maintains same_queue_body_stable same_queue_ctx_stable)
  then have sq: "same_queue s (snd (job_attempt env cfg s))"
    by (rule maintainsD) (rule same_queue_refl)
  let ?s1 = "snd (job_attempt env cfg s)"
  from sq assms have "job_queue ?s1 \<noteq> []" by (simp add: same_queue_def)
  then have "budget cfg (snd (finalize_job cfg ?s1)) < budget cfg ?s1"
    by (rule finalize_job_budget)
  moreover have "snd (job_turn env cfg s) = snd (finalize_job cfg ?s1)"
    by (simp add: job_turn_def try_finally_def split: prod.splits option.splits)
  ultimately show ?thesis using same_queue_budget [OF sq] by simp
qed

lemma skip_turn_budget:
  assumes "skip_turn env cfg st s = (None, s1)"
  shows "budget cfg s1 < budget cfg s"
proof -
  let ?a = "block [with_current_job (next_job env cfg), set_status st]"
  have m: "maintains (same_queue s) ?a"
    by (intro maintains_intros next_job_maintains [where sts = UNIV]
          stable_set_status [where sts = UNIV] same_queue_body_stable same_queue_ctx_stable)
       simp_all
  have sq: "same_queue s (snd (?a s))"
    using m by (rule maintainsD) (rule same_queue_refl)
  from assms have ne: "job_queue s \<noteq> []"
    by (auto simp: skip_turn_def seq_def with_current_job_def split: list.splits)
  from assms have "s1 = snd (finalize_job cfg (snd (?a s)))"
    by (auto simp: skip_turn_def seq_def skip_def split: prod.splits option.splits)
  moreover from sq ne have "job_queue (snd (?a s)) \<noteq> []" by (simp add: same_queue_def)
  then have "budget cfg (snd (finalize_job cfg (snd (?a s)))) < budget cfg (snd (?a s))"
    by (rule finalize_job_budget)
  ultimately show ?thesis using same_queue_budget [OF sq] by simp
qed

lemma job_turn_budget':
  "job_queue s \<noteq> [] \<Longrightarrow> job_turn env cfg s = (x, s1) \<Longrightarrow> budget cfg s1 < budget cfg s"
  using job_turn_budget [of s cfg env] by simp

text \<open>
  \<^verbatim>\<open>
  while self.job_queue:
      try: ... except ... finally: ...
  \<close>
\<close>

function job_loop :: "environment \<Rightarrow> config \<Rightarrow> action" where
  "job_loop env cfg s =
     (if job_queue s = [] then (None, s)
      else (case job_turn env cfg s of
              (None, s1) \<Rightarrow> job_loop env cfg s1
            | (Some e, s1) \<Rightarrow> (Some e, s1)))"
  by pat_completeness auto
termination
  by (relation "measure (\<lambda>(env, cfg, s). budget cfg s)")
     (auto dest: job_turn_budget' [OF _ sym])

text \<open>
  \<^verbatim>\<open>
  while self.job_queue:
      self.context.next_job(self.current_job)
      self.current_job.result.status = IterationResult.ABORTED    # or SKIPPED
      self._finalize_job()
  \<close>
\<close>

function skip_remaining :: "environment \<Rightarrow> config \<Rightarrow> status \<Rightarrow> action" where
  "skip_remaining env cfg st s =
     (if job_queue s = [] then (None, s)
      else (case skip_turn env cfg st s of
              (None, s1) \<Rightarrow> skip_remaining env cfg st s1
            | (Some e, s1) \<Rightarrow> (Some e, s1)))"
  by pat_completeness auto
termination
  by (relation "measure (\<lambda>(env, cfg, st, s). budget cfg s)")
     (auto dest: skip_turn_budget [OF sym])

declare job_loop.simps [simp del] skip_remaining.simps [simp del]


subsection \<open>\<open>Runner.run\<close>\<close>

text \<open>
  The outer try statement:
  \<^verbatim>\<open>
  try:
      while self.job_queue: ...
  except KeyboardInterrupt:
      while self.job_queue: ... ABORTED ...
  except DeviceNotRespondingError:
      self.context.aborted = True
      while self.job_queue: ... SKIPPED ...
  \<close>
\<close>

definition run_jobs :: "environment \<Rightarrow> config \<Rightarrow> action" where
  "run_jobs env cfg =
     try_except (job_loop env cfg)
       (\<lambda>e. if e = KeyboardInterrupt then skip_remaining env cfg ABORTED
             else if e = DeviceNotRespondingError then
               block [
                 modify (\<lambda>s. s\<lparr>aborted := True,
                   trace := trace s @ [AbortedSet (job_queue s) (length (iteration_results s))]\<rparr>),
                 skip_remaining env cfg SKIPPED]
             else raise e)"

text \<open>
  \<open>if instrumentation.check_failures(): a else: b\<close>. The call is recorded like every
  other; what it returns is \<open>failures\<close> of the environment.
\<close>

definition if_check_failures :: "environment \<Rightarrow> action \<Rightarrow> action \<Rightarrow> action" where
  "if_check_failures env a b =
     read tick (\<lambda>n.
       seq (call env instrumentation_check_failures) (if failures env n then a else b))"

text \<open>
  \<^verbatim>\<open>
  def _connect_to_device(self):
      if self.context.reboot_policy.perform_initial_boot:
          try:
              self.device_manager.connect()
          except DeviceError:  # device may be offline
              if self.device.can('reset_power'):
                  with self._signal_wrap('INITIAL_BOOT'):
                      self.device.boot(hard=True)
              else:
                  raise DeviceError(...)
          else:  # successfully connected
              with self._signal_wrap('INITIAL_BOOT'):
                  self._reboot_device()
      else:
          self.device_manager.connect()
  \<close>
\<close>

definition connect_to_device :: "environment \<Rightarrow> config \<Rightarrow> action" where
  "connect_to_device env cfg =
     (if perform_initial_boot cfg then
        try_except_else (call env device_manager_connect)
          (\<lambda>e. if is_DeviceError env e then
                  (if can_reset_power env
                   then signal_wrap INITIAL_BOOT (call env device_boot_hard)
                   else raise DeviceError)
                else raise e)
          (signal_wrap INITIAL_BOOT (reboot_device env))
      else call env device_manager_connect)"

text \<open>
  \<^verbatim>\<open>
  def _initialize_run(self):
      self.context.runner = self
      self.context.run_info.start_time = datetime.utcnow()
      self._connect_to_device()
      self.device_manager.initialize(self.context)
      for workload_spec in self.context.config.workload_specs:
          workload_spec.workload.initialize(self.context)
      self.context.run_info.device_properties = self.device_manager.info
      self.result_manager.initialize(self.context)
      self._send(signal.RUN_INIT)
      if instrumentation.check_failures():
          raise InstrumentError(...)
  \<close>
\<close>

definition initialize_run :: "environment \<Rightarrow> config \<Rightarrow> action" where
  "initialize_run env cfg =
     block [
       connect_to_device env cfg,
       call env device_manager_initialize,
       for_each (\<lambda>sp. call env (workload_initialize sp)) (workload_specs cfg),
       call env result_manager_initialize,
       send RUN_INIT,
       if_check_failures env (raise InstrumentError) skip]"

text \<open>
  \<^verbatim>\<open>
  def _finalize_run(self):
      for workload_spec in self.context.config.workload_specs:
          workload_spec.workload.finalize(self.context)
      self._send(signal.RUN_FIN)
      with self._handle_errors('Disconnecting from the device'):
          self.device.disconnect()
      ...

  def _process_results(self):
      with self._signal_wrap('OVERALL_RESULTS_PROCESSING'):
          if instrumentation.check_failures():
              self.context.run_result.non_iteration_errors = True
          self.result_manager.process_run_result(self.context.run_result, self.context)
  \<close>
\<close>

definition finalize_run :: "environment \<Rightarrow> config \<Rightarrow> action" where
  "finalize_run env cfg =
     block [
       for_each (\<lambda>sp. call env (workload_finalize sp)) (workload_specs cfg),
       send RUN_FIN,
       handle_errors env FAILED (call env device_disconnect)]"

definition process_results :: "environment \<Rightarrow> action" where
  "process_results env =
     signal_wrap OVERALL_RESULTS_PROCESSING
       (block [
          if_check_failures env (modify (\<lambda>s. s\<lparr>non_iteration_errors := True\<rparr>)) skip,
          call env result_manager_process_run_result])"

text \<open>
  \<^verbatim>\<open>
  def run(self):
      self._send(signal.RUN_START)
      self._initialize_run()
      try: ... except ...
      instrumentation.enable_all()
      self._finalize_run()
      self._process_results()
      self.result_manager.finalize(self.context)
      self._send(signal.RUN_END)
  \<close>
  \<open>run_epilogue\<close> is what follows the try statement.
\<close>

definition run_epilogue :: "environment \<Rightarrow> config \<Rightarrow> action" where
  "run_epilogue env cfg =
     block [
       call env instrumentation_enable_all,
       finalize_run env cfg,
       process_results env,
       call env result_manager_finalize,
       send RUN_END]"

definition run :: "environment \<Rightarrow> config \<Rightarrow> action" where
  "run env cfg =
     block [send RUN_START, initialize_run env cfg, run_jobs env cfg, run_epilogue env cfg]"

text \<open>The statuses of \<open>run_result.iteration_results\<close>, in order.\<close>

definition result_statuses :: "state \<Rightarrow> status list" where
  "result_statuses s = map (\<lambda>r. status (result (jobs s r))) (iteration_results s)"

definition job_specs :: "state \<Rightarrow> nat list \<Rightarrow> nat list" where
  "job_specs s rs = map (\<lambda>r. spec (jobs s r)) rs"


subsection \<open>The order of the queue\<close>


lemma izip_longest_done:
  "list_all (\<lambda>xs. xs = []) xss \<Longrightarrow> izip_longest xss = []"
  by (simp add: izip_longest.simps)

lemma izip_longest_step:
  "\<not> list_all (\<lambda>xs. xs = []) xss \<Longrightarrow>
     izip_longest xss =
       map (\<lambda>xs. case xs of [] \<Rightarrow> None | x # _ \<Rightarrow> Some x) xss # izip_longest (map tl xss)"
  by (simp add: izip_longest.simps)

lemma fresh_ge: "next_ref s \<le> fresh s"
  by (simp add: fresh_def fold_max_ge)

definition alloc_ok :: "state \<Rightarrow> state \<Rightarrow> bool" where
  "alloc_ok s s' \<longleftrightarrow>
     next_ref s \<le> next_ref s' \<and> referenced s' = referenced s
     \<and> (\<forall>r < next_ref s. jobs s' r = jobs s r)"

lemma alloc_ok_refl: "alloc_ok s s"
  by (simp add: alloc_ok_def)

lemma alloc_ok_trans: "alloc_ok s s1 \<Longrightarrow> alloc_ok s1 s2 \<Longrightarrow> alloc_ok s s2"
  by (auto simp: alloc_ok_def)

lemma RunnerJob_init_ok:
  "RunnerJob_init sp rt s = (r, s1) \<Longrightarrow>
     alloc_ok s s1 \<and> next_ref s \<le> r \<and> r < next_ref s1 \<and> jobs s1 r = new_RunnerJob sp rt"
  using fresh_ge [of s]
  by (auto simp: RunnerJob_init_def Let_def alloc_ok_def referenced_def)

lemma new_jobs_ok:
  "new_jobs sp n s = (rs, s2) \<Longrightarrow>
     alloc_ok s s2 \<and> length rs = n
     \<and> (\<forall>r \<in> set rs. next_ref s \<le> r \<and> r < next_ref s2 \<and> jobs s2 r = new_RunnerJob sp 0)"
proof (induction n arbitrary: s rs s2)
  case 0
  then show ?case by (simp add: alloc_ok_refl)
next
  case (Suc n)
  obtain r s1 where a: "RunnerJob_init sp 0 s = (r, s1)" by (cases "RunnerJob_init sp 0 s")
  obtain rs' s2' where b: "new_jobs sp n s1 = (rs', s2')" by (cases "new_jobs sp n s1")
  from Suc.prems a b have eq: "rs = r # rs'" "s2 = s2'" by simp_all
  note A = RunnerJob_init_ok [OF a]
  note B = Suc.IH [OF b]
  from A B have ok: "alloc_ok s s2'" by (blast intro: alloc_ok_trans)
  from A B have "jobs s2' r = new_RunnerJob sp 0" by (simp add: alloc_ok_def)
  moreover from A B have "r < next_ref s2'" by (auto simp: alloc_ok_def)
  moreover from A B have "\<forall>x \<in> set rs'. next_ref s \<le> x" by (auto simp: alloc_ok_def)
  ultimately show ?case using A B ok eq by auto
qed

lemma new_job_lists_ok:
  "new_job_lists cfg specs s = (rss, s2) \<Longrightarrow>
     alloc_ok s s2
     \<and> map (map (\<lambda>r. jobs s2 r)) rss
         = map (\<lambda>sp. replicate (nat (number_of_iterations (spec_of cfg sp))) (new_RunnerJob sp 0)) specs
     \<and> (\<forall>rs \<in> set rss. \<forall>r \<in> set rs. r < next_ref s2)"
proof (induction specs arbitrary: s rss s2)
  case Nil
  then show ?case by (simp add: alloc_ok_refl)
next
  case (Cons sp sps)
  let ?n = "nat (number_of_iterations (spec_of cfg sp))"
  obtain rs s1 where a: "new_jobs sp ?n s = (rs, s1)" by (cases "new_jobs sp ?n s")
  obtain rss' s2' where b: "new_job_lists cfg sps s1 = (rss', s2')"
    by (cases "new_job_lists cfg sps s1")
  from Cons.prems a b have eq: "rss = rs # rss'" "s2 = s2'" by simp_all
  note A = new_jobs_ok [OF a]
  note B = Cons.IH [OF b]
  from A B have ok: "alloc_ok s s2'" by (blast intro: alloc_ok_trans)
  have keep: "jobs s2' r = new_RunnerJob sp 0" if "r \<in> set rs" for r
    using A B that by (auto simp: alloc_ok_def)
  have "map (\<lambda>r. jobs s2' r) rs = replicate ?n (new_RunnerJob sp 0)"
    using A keep by (intro replicate_eqI) auto
  moreover have "\<forall>r \<in> set rs. r < next_ref s2'" using A B by (auto simp: alloc_ok_def)
  ultimately show ?case using B ok eq by simp
qed

lemma flatten_present_Cons:
  "flatten_present (t # ts) =
     concat (map (\<lambda>j. case j of None \<Rightarrow> [] | Some x \<Rightarrow> [x]) t) @ flatten_present ts"
  by (simp add: flatten_present_def)

lemma flatten_present_Nil [simp]: "flatten_present [] = []"
  by (simp add: flatten_present_def)

lemma map_flatten_izip:
  "map g (flatten_present (izip_longest xss)) = flatten_present (izip_longest (map (map g) xss))"
proof (induction xss rule: izip_longest.induct)
  case (1 xss)
  show ?case
  proof (cases "list_all (\<lambda>xs. xs = []) xss")
    case True
    then have "list_all (\<lambda>xs. xs = []) (map (map g) xss)" by (simp add: list_all_iff)
    with True show ?thesis by (simp add: izip_longest.simps)
  next
    case False
    then have F: "\<not> list_all (\<lambda>xs. xs = []) (map (map g) xss)" by (simp add: list_all_iff)
    have heads: "map g (concat (map (\<lambda>j. case j of None \<Rightarrow> [] | Some x \<Rightarrow> [x])
                   (map (\<lambda>xs. case xs of [] \<Rightarrow> None | x # _ \<Rightarrow> Some x) xss)))
          = concat (map (\<lambda>j. case j of None \<Rightarrow> [] | Some x \<Rightarrow> [x])
                   (map (\<lambda>xs. case xs of [] \<Rightarrow> None | x # _ \<Rightarrow> Some x) (map (map g) xss)))"
      by (induction xss) (auto split: list.splits)
    have tls: "map tl (map (map g) xss) = map (map g) (map tl xss)"
      by (simp add: map_tl)
    show ?thesis
      using False F 1 [OF False] heads
      by (subst izip_longest.simps, subst (2) izip_longest.simps)
         (simp add: flatten_present_Cons tls del: map_map)
  qed
qed

text \<open>
  Taking turns over \<open>xs\<close>: round \<open>k\<close> holds, in the order of \<open>xs\<close>, every element that
  is due more than \<open>k\<close> times.
\<close>

definition round_robin :: "('a \<Rightarrow> nat) \<Rightarrow> 'a list \<Rightarrow> 'a list" where
  "round_robin n xs =
     concat (map (\<lambda>k. filter (\<lambda>x. k < n x) xs) [0..<fold max (map n xs) 0])"

lemma rounds_empty:
  assumes "\<forall>x \<in> set xs. n x = (0::nat)"
  shows "concat (map (\<lambda>k. filter (\<lambda>x. k < n x) xs) ks) = []"
proof -
  have "filter (\<lambda>x. k < n x) xs = []" for k
    using assms by (simp add: filter_empty_conv)
  then show ?thesis by simp
qed

lemma izip_replicate:
  "\<forall>x \<in> set xs. n x \<le> m \<Longrightarrow>
     flatten_present (izip_longest (map (\<lambda>x. replicate (n x) x) xs))
       = concat (map (\<lambda>k. filter (\<lambda>x. k < n x) xs) [0..<m])"
proof (induction m arbitrary: n)
  case 0
  then have "list_all (\<lambda>ys. ys = []) (map (\<lambda>x. replicate (n x) x) xs)"
    by (simp add: list_all_iff)
  then show ?case by (simp add: izip_longest.simps)
next
  case (Suc m)
  show ?case
  proof (cases "\<forall>x \<in> set xs. n x = 0")
    case True
    then have "list_all (\<lambda>ys. ys = []) (map (\<lambda>x. replicate (n x) x) xs)"
      by (simp add: list_all_iff)
    then have "flatten_present (izip_longest (map (\<lambda>x. replicate (n x) x) xs)) = []"
      by (simp add: izip_longest.simps)
    also have "[] = concat (map (\<lambda>k. filter (\<lambda>x. k < n x) xs) [0..<Suc m])"
      by (rule rounds_empty [OF True, symmetric])
    finally show ?thesis .
  next
    case False
    then have ne: "\<not> list_all (\<lambda>ys. ys = []) (map (\<lambda>x. replicate (n x) x) xs)"
      by (auto simp: list_all_iff)
    have hd_rep: "(case replicate k x of [] \<Rightarrow> None | y # _ \<Rightarrow> Some y)
                    = (if k = 0 then None else Some x)" for k and x :: 'a
      by (cases k) simp_all
    have heads: "concat (map (\<lambda>j. case j of None \<Rightarrow> [] | Some x \<Rightarrow> [x])
                   (map (\<lambda>ys. case ys of [] \<Rightarrow> None | y # _ \<Rightarrow> Some y)
                      (map (\<lambda>x. replicate (n x) x) xs)))
          = filter (\<lambda>x. 0 < n x) xs"
      by (induction xs) (simp_all add: hd_rep)
    have tls: "map tl (map (\<lambda>x. replicate (n x) x) xs) = map (\<lambda>x. replicate (n x - 1) x) xs"
      by (simp add: tl_replicate)
    have le: "\<forall>x \<in> set xs. n x - 1 \<le> m" using Suc.prems by auto
    have "[0..<Suc m] = 0 # [Suc 0..<Suc m]"
      by (rule upt_conv_Cons) simp
    also have "[Suc 0..<Suc m] = map Suc [0..<m]"
      by (rule map_Suc_upt [symmetric])
    finally have shift: "[0..<Suc m] = 0 # map Suc [0..<m]" .
    have "flatten_present (izip_longest (map (\<lambda>x. replicate (n x) x) xs))
            = filter (\<lambda>x. 0 < n x) xs
              @ flatten_present (izip_longest (map (\<lambda>x. replicate (n x - 1) x) xs))"
      using ne heads by (subst izip_longest.simps) (simp add: flatten_present_Cons tls del: map_map)
    also have "\<dots> = filter (\<lambda>x. 0 < n x) xs
              @ concat (map (\<lambda>k. filter (\<lambda>x. k < n x - 1) xs) [0..<m])"
      by (simp only: Suc.IH [OF le])
    also have "\<dots> = concat (map (\<lambda>k. filter (\<lambda>x. k < n x) xs) [0..<Suc m])"
      by (simp only: shift) (simp add: comp_def less_diff_conv)
    finally show ?thesis .
  qed
qed

lemma izip_round_robin:
  "flatten_present (izip_longest (map (\<lambda>x. replicate (n x) x) xs)) = round_robin n xs"
  unfolding round_robin_def
  by (rule izip_replicate) (simp add: fold_max_mem)


lemma init_queue_BySectionRunner:
  "job_specs (init_queue BySectionRunner shuffle cfg specs s)
       (job_queue (init_queue BySectionRunner shuffle cfg specs s))
     = round_robin (\<lambda>sp. nat (number_of_iterations (spec_of cfg sp))) specs"
proof -
  obtain rss s1 where a: "new_job_lists cfg specs s = (rss, s1)"
    by (cases "new_job_lists cfg specs s")
  let ?n = "\<lambda>sp. nat (number_of_iterations (spec_of cfg sp))"
  from new_job_lists_ok [OF a]
  have "map (map (\<lambda>r. jobs s1 r)) rss = map (\<lambda>sp. replicate (?n sp) (new_RunnerJob sp 0)) specs"
    by simp
  then have "map (map spec) (map (map (\<lambda>r. jobs s1 r)) rss)
               = map (map spec) (map (\<lambda>sp. replicate (?n sp) (new_RunnerJob sp 0)) specs)"
    by (rule arg_cong)
  then have sp: "map (map (\<lambda>r. spec (jobs s1 r))) rss = map (\<lambda>sp. replicate (?n sp) sp) specs"
    by (simp add: comp_def new_RunnerJob_def)
  have "job_specs (init_queue BySectionRunner shuffle cfg specs s)
          (job_queue (init_queue BySectionRunner shuffle cfg specs s))
        = map (\<lambda>r. spec (jobs s1 r)) (flatten_present (izip_longest rss))"
    using a by (simp add: job_specs_def)
  also have "\<dots> = flatten_present (izip_longest (map (map (\<lambda>r. spec (jobs s1 r))) rss))"
    by (rule map_flatten_izip)
  also have "\<dots> = round_robin ?n specs"
    by (simp only: sp izip_round_robin)
  finally show ?thesis .
qed

lemma round_robin_example:
  "round_robin (\<lambda>sp. nat (number_of_iterations (spec_of example_config sp))) [0, 1, 2, 3]
     = [0, 1, 2, 3, 0, 1, 2, 3]"
  by (simp add: round_robin_def example_config_def example_specs_def example_spec_def upt_rec)

text \<open>
  C2, as stated, fails. For \<open>execution_order = 'by_section'\<close> the Executor takes
  \<open>BySectionRunner\<close>, and on the specs \<open>X.A, X.B, Y.A, Y.B\<close> (0, 1, 2, 3) of two
  iterations each its queue is not \<open>X.A, Y.A, X.B, Y.B, X.A, Y.A, X.B, Y.B\<close>.
\<close>

theorem by_section_order_counterexample:
  "get_runner ''by_section'' = Inr BySectionRunner
   \<and> job_specs (init_queue BySectionRunner id example_config [0, 1, 2, 3]
                  (initial_state example_config))
        (job_queue (init_queue BySectionRunner id example_config [0, 1, 2, 3]
                  (initial_state example_config)))
      \<noteq> [0, 2, 1, 3, 0, 2, 1, 3]"
  unfolding init_queue_BySectionRunner round_robin_example
  by (simp add: get_runner_def)

text \<open>
  C2, amended. \<open>BySectionRunner.init_queue\<close> does not group the specs by
  \<open>section_id\<close>: it takes them in the order given and goes round them by iteration
  index, so that round \<open>k\<close> holds every spec with more than \<open>k\<close> iterations. For the
  specs \<open>X.A, X.B, Y.A, Y.B\<close> of two iterations each the queue is
  \<open>X.A, X.B, Y.A, Y.B, X.A, X.B, Y.A, Y.B\<close>, as the docstring of the class says.
\<close>

theorem by_section_order:
  "job_specs (init_queue BySectionRunner shuffle cfg specs s)
       (job_queue (init_queue BySectionRunner shuffle cfg specs s))
     = round_robin (\<lambda>sp. nat (number_of_iterations (spec_of cfg sp))) specs
   \<and> round_robin (\<lambda>sp. nat (number_of_iterations (spec_of example_config sp))) [0, 1, 2, 3]
     = [0, 1, 2, 3, 0, 1, 2, 3]"
  unfolding init_queue_BySectionRunner round_robin_example by simp

text \<open>
  The order the claim gives is the one of \<open>ByIterationRunner\<close>, whose \<open>init_queue\<close>
  does the grouping by section.
\<close>

lemma by_iteration_order_example:
  "job_specs (init_queue ByIterationRunner id example_config [0, 1, 2, 3]
                  (initial_state example_config))
        (job_queue (init_queue ByIterationRunner id example_config [0, 1, 2, 3]
                  (initial_state example_config)))
      = [0, 2, 1, 3, 0, 2, 1, 3]"
  by (simp add: initial_state_def example_config_def example_specs_def example_spec_def
      RunnerJob_init_def fresh_def referenced_def flatten_present_def Let_def new_RunnerJob_def
      job_specs_def numeral_2_eq_2 izip_longest_done izip_longest_step)


subsection \<open>One turn, step by step\<close>

lemma seq_assoc: "seq (seq a b) c = seq a (seq b c)"
  by (rule ext) (simp add: seq_def split: prod.splits option.splits)

lemma set_status_head:
  "job_queue s = r # rest \<Longrightarrow> set_status st s = (None, write_status r st s)"
  by (simp add: set_status_def with_current_job_def modify_def)


text \<open>
  The state after the first two statements of \<open>next_job\<close>, and the body of a job from
  there on.
\<close>

definition started :: "config \<Rightarrow> nat \<Rightarrow> state \<Rightarrow> state" where
  "started cfg job s =
     s\<lparr>ctx_current_job := Some job,
       job_iteration_counts :=
         increment (job_iteration_counts s) (spec_id (spec_of cfg (spec (jobs s job))))\<rparr>"

definition job_rest :: "environment \<Rightarrow> config \<Rightarrow> nat \<Rightarrow> action" where
  "job_rest env cfg job = seq (next_job_rest env cfg job) (run_job env cfg)"

lemma next_job_eq:
  "next_job env cfg job s = next_job_rest env cfg job (started cfg job s)"
  by (simp add: next_job_def next_job_rest_def started_def)

lemma write_status_fields [simp]:
  "completed_jobs (write_status r st s) = completed_jobs s"
  "iteration_results (write_status r st s) = iteration_results s"
  "aborted (write_status r st s) = aborted s"
  "next_ref (write_status r st s) = next_ref s"
  "ctx_current_job (write_status r st s) = ctx_current_job s"
  "job_iteration_counts (write_status r st s) = job_iteration_counts s"
  "trace (write_status r st s) = trace s"
  "tick (write_status r st s) = tick s"
  "spec (jobs (write_status r st s) x) = spec (jobs s x)"
  "retry (jobs (write_status r st s) x) = retry (jobs s x)"
  "status (result (jobs (write_status r st s) x)) = (if x = r then st else status (result (jobs s x)))"
  by (simp_all add: write_status_def)

lemma write_event_fields [simp]:
  "completed_jobs (write_event r e s) = completed_jobs s"
  "iteration_results (write_event r e s) = iteration_results s"
  "aborted (write_event r e s) = aborted s"
  "next_ref (write_event r e s) = next_ref s"
  "ctx_current_job (write_event r e s) = ctx_current_job s"
  "job_iteration_counts (write_event r e s) = job_iteration_counts s"
  "trace (write_event r e s) = trace s"
  "tick (write_event r e s) = tick s"
  "spec (jobs (write_event r e s) x) = spec (jobs s x)"
  "retry (jobs (write_event r e s) x) = retry (jobs s x)"
  "status (result (jobs (write_event r e s) x)) = status (result (jobs s x))"
  by (simp_all add: write_event_def)

lemma set_result_fields_fields [simp]:
  "job_queue (set_result_fields r it d s) = job_queue s"
  "completed_jobs (set_result_fields r it d s) = completed_jobs s"
  "iteration_results (set_result_fields r it d s) = iteration_results s"
  "aborted (set_result_fields r it d s) = aborted s"
  "next_ref (set_result_fields r it d s) = next_ref s"
  "ctx_current_job (set_result_fields r it d s) = ctx_current_job s"
  "job_iteration_counts (set_result_fields r it d s) = job_iteration_counts s"
  "trace (set_result_fields r it d s) = trace s"
  "tick (set_result_fields r it d s) = tick s"
  "spec (jobs (set_result_fields r it d s) x) = spec (jobs s x)"
  "retry (jobs (set_result_fields r it d s) x) = retry (jobs s x)"
  "status (result (jobs (set_result_fields r it d s) x)) = status (result (jobs s x))"
  by (simp_all add: set_result_fields_def)

lemma job_body_eq:
  assumes "job_queue s = job # rest"
  shows "job_body env cfg s = job_rest env cfg job (started cfg job (write_status job RUNNING s))"
proof -
  let ?s1 = "write_status job RUNNING s"
  have q1: "job_queue ?s1 = job # rest" using assms by simp
  have "job_body env cfg s
          = seq (set_status RUNNING) (seq (with_current_job (next_job env cfg)) (run_job env cfg)) s"
    by (simp add: job_body_def init_job_def seq_assoc)
  also have "\<dots> = seq (with_current_job (next_job env cfg)) (run_job env cfg) ?s1"
    by (simp add: seq_def set_status_head [OF assms])
  also have "\<dots> = job_rest env cfg job (started cfg job ?s1)"
    using q1 by (simp add: seq_def with_current_job_def next_job_eq job_rest_def)
  finally show ?thesis .
qed

lemma job_rest_maintains:
  "body_stable sts I \<Longrightarrow> dir_stable I \<Longrightarrow> RUNNING \<in> sts \<Longrightarrow> SKIPPED \<in> sts
     \<Longrightarrow> FAILED \<in> sts \<Longrightarrow> PARTIAL \<in> sts \<Longrightarrow> NONCRITICAL \<in> sts \<Longrightarrow> OK \<in> sts
     \<Longrightarrow> maintains I (job_rest env cfg job)"
  unfolding job_rest_def
  by (intro maintains_intros next_job_rest_maintains run_job_maintains; assumption)

text \<open>The handler for an \<open>Exception\<close>, after its first assignment.\<close>

definition job_failed_rest :: "environment \<Rightarrow> config \<Rightarrow> exn \<Rightarrow> action" where
  "job_failed_rest env cfg e =
     block [
       add_event e,
       (if e = DeviceNotRespondingError then
          (if can_reboot cfg \<and> can_reset_power env then
             try_except (block [call env device_boot_hard, call env device_connect])
               (\<lambda>e'. if is_DeviceError env e' then raise e else raise e')
           else raise e)
        else skip)]"

lemma job_failed_rest_maintains:
  "body_stable sts I \<Longrightarrow> maintains I (job_failed_rest env cfg e)"
  unfolding job_failed_rest_def
  by (intro maintains_intros stable_intros; assumption)

lemma is_Exception_iff: "is_Exception e \<longleftrightarrow> e \<noteq> KeyboardInterrupt"
  by (cases e) simp_all

lemma job_failed_interrupt:
  "job_queue s = job # rest \<Longrightarrow>
     job_failed env cfg KeyboardInterrupt s = (Some KeyboardInterrupt, write_status job ABORTED s)"
  by (simp add: job_failed_def seq_def set_status_head raise_def)

lemma job_failed_exception:
  "job_queue s = job # rest \<Longrightarrow> e \<noteq> KeyboardInterrupt \<Longrightarrow>
     job_failed env cfg e s = job_failed_rest env cfg e (write_status job FAILED s)"
  by (simp add: job_failed_def job_failed_rest_def is_Exception_iff seq_def [of "set_status FAILED"]
      set_status_head)

text \<open>
  What the body of a job and the handlers leave alone: the queue, the completed jobs,
  the results, \<open>aborted\<close>, the spec and the retry count of every job (\<open>same_frame\<close>);
  after \<open>next_job\<close>, the current job and the counts (\<open>same_ctx\<close>). They record no
  \<open>aborted = True\<close> (\<open>no_marker\<close>), and they write no status \<open>ABORTED\<close> but in the
  handler of \<open>KeyboardInterrupt\<close> (\<open>not_aborted\<close>).
\<close>

definition same_frame :: "state \<Rightarrow> state \<Rightarrow> bool" where
  "same_frame s0 s \<longleftrightarrow>
     job_queue s = job_queue s0 \<and> completed_jobs s = completed_jobs s0
     \<and> iteration_results s = iteration_results s0 \<and> aborted s = aborted s0
     \<and> next_ref s = next_ref s0
     \<and> (\<forall>r. spec (jobs s r) = spec (jobs s0 r) \<and> retry (jobs s r) = retry (jobs s0 r))"

definition same_ctx :: "state \<Rightarrow> state \<Rightarrow> bool" where
  "same_ctx s0 s \<longleftrightarrow>
     ctx_current_job s = ctx_current_job s0 \<and> job_iteration_counts s = job_iteration_counts s0"

definition no_marker :: "event list \<Rightarrow> state \<Rightarrow> bool" where
  "no_marker t0 s \<longleftrightarrow> (\<exists>evs. trace s = t0 @ evs \<and> (\<forall>ev \<in> set evs. \<not> is_marker ev))"

definition not_aborted :: "nat \<Rightarrow> state \<Rightarrow> bool" where
  "not_aborted r s \<longleftrightarrow> status (result (jobs s r)) \<noteq> ABORTED"

lemma same_frame_refl: "same_frame s s"
  by (simp add: same_frame_def)

lemma same_ctx_refl: "same_ctx s s"
  by (simp add: same_ctx_def)

lemma no_marker_refl: "no_marker (trace s) s"
  by (simp add: no_marker_def)

lemma same_frame_stable: "body_stable UNIV (same_frame s0)" "ctx_stable (same_frame s0)"
  by (simp_all add: body_stable_def ctx_stable_def dir_stable_def same_frame_def)

lemma same_ctx_stable: "body_stable UNIV (same_ctx s0)" "dir_stable (same_ctx s0)"
  by (simp_all add: body_stable_def dir_stable_def same_ctx_def)

lemma no_marker_stable: "body_stable UNIV (no_marker t0)" "ctx_stable (no_marker t0)"
  by (auto simp: body_stable_def ctx_stable_def dir_stable_def no_marker_def)

lemma not_aborted_stable:
  "body_stable (UNIV - {ABORTED}) (not_aborted r)" "dir_stable (not_aborted r)"
  by (simp_all add: body_stable_def dir_stable_def not_aborted_def)

lemma ctx_stable_dir: "ctx_stable I \<Longrightarrow> dir_stable I"
  by (simp add: ctx_stable_def)

lemma job_attempt_eq:
  "job_queue s = job # rest \<Longrightarrow>
     job_attempt env cfg s =
       try_except (job_rest env cfg job) (job_failed env cfg)
         (started cfg job (write_status job RUNNING s))"
  by (simp add: job_attempt_def try_except_def job_body_eq)

lemma job_attempt_frame: "same_frame s (snd (job_attempt env cfg s))"
  by (rule maintainsD [OF job_attempt_maintains [OF same_frame_stable] same_frame_refl])


lemma job_attempt_no_marker: "no_marker (trace s) (snd (job_attempt env cfg s))"
  by (rule maintainsD [OF job_attempt_maintains [OF no_marker_stable] no_marker_refl])

lemma started_fields [simp]:
  "job_queue (started cfg job s) = job_queue s"
  "ctx_current_job (started cfg job s) = Some job"
  "job_iteration_counts (started cfg job s)
     = increment (job_iteration_counts s) (spec_id (spec_of cfg (spec (jobs s job))))"
  "jobs (started cfg job s) = jobs s"
  "completed_jobs (started cfg job s) = completed_jobs s"
  "iteration_results (started cfg job s) = iteration_results s"
  "aborted (started cfg job s) = aborted s"
  "next_ref (started cfg job s) = next_ref s"
  "trace (started cfg job s) = trace s"
  "tick (started cfg job s) = tick s"
  by (simp_all add: started_def)

lemma job_attempt_ctx:
  assumes "job_queue s = job # rest"
  shows "ctx_current_job (snd (job_attempt env cfg s)) = Some job
         \<and> job_iteration_counts (snd (job_attempt env cfg s))
             = increment (job_iteration_counts s) (spec_id (spec_of cfg (spec (jobs s job))))"
proof -
  let ?s2 = "started cfg job (write_status job RUNNING s)"
  have "maintains (same_ctx ?s2) (try_except (job_rest env cfg job) (job_failed env cfg))"
    by (intro maintains_try_except job_rest_maintains [where sts = UNIV]
          job_failed_maintains [where sts = UNIV] same_ctx_stable) simp_all
  then have "same_ctx ?s2 (snd (job_attempt env cfg s))"
    unfolding job_attempt_eq [OF assms] by (rule maintainsD) (rule same_ctx_refl)
  then show ?thesis by (simp add: same_ctx_def)
qed

lemma job_attempt_status:
  assumes q: "job_queue s = job # rest"
    and a: "job_attempt env cfg s = (r, s1)"
    and st: "status (result (jobs s1 job)) = ABORTED"
  shows "r = Some KeyboardInterrupt"
proof -
  let ?s2 = "started cfg job (write_status job RUNNING s)"
  obtain rb sb where b: "job_rest env cfg job ?s2 = (rb, sb)"
    by (cases "job_rest env cfg job ?s2")
  have "maintains (not_aborted job) (job_rest env cfg job)"
    by (intro job_rest_maintains [where sts = "UNIV - {ABORTED}"] not_aborted_stable) simp_all
  moreover have "not_aborted job ?s2" by (simp add: not_aborted_def)
  ultimately have "not_aborted job (snd (job_rest env cfg job ?s2))"
    by (rule maintainsD)
  with b have nb: "not_aborted job sb" by simp
  have "maintains (same_frame ?s2) (job_rest env cfg job)"
    by (intro job_rest_maintains [where sts = UNIV] same_frame_stable ctx_stable_dir) simp_all
  then have "same_frame ?s2 (snd (job_rest env cfg job ?s2))"
    by (rule maintainsD) (rule same_frame_refl)
  with b q have qb: "job_queue sb = job # rest" by (simp add: same_frame_def)
  from a have a': "try_except (job_rest env cfg job) (job_failed env cfg) ?s2 = (r, s1)"
    by (simp add: job_attempt_eq [OF q])
  show ?thesis
  proof (cases rb)
    case None
    with a' b have "s1 = sb" by (simp add: try_except_def)
    with nb st show ?thesis by (simp add: not_aborted_def)
  next
    case (Some e)
    with a' b have h: "job_failed env cfg e sb = (r, s1)" by (simp add: try_except_def)
    show ?thesis
    proof (cases "e = KeyboardInterrupt")
      case True
      with h show ?thesis by (simp add: job_failed_interrupt [OF qb])
    next
      case False
      let ?s3 = "write_status job FAILED sb"
      from h False have "job_failed_rest env cfg e ?s3 = (r, s1)"
        by (simp add: job_failed_exception [OF qb])
      moreover have "not_aborted job ?s3" by (simp add: not_aborted_def)
      then have "not_aborted job (snd (job_failed_rest env cfg e ?s3))"
        by (rule maintainsD [OF job_failed_rest_maintains [OF not_aborted_stable(1)]])
      ultimately show ?thesis using st by (simp add: not_aborted_def)
    qed
  qed
qed



text \<open>The state \<open>end_job\<close> leaves.\<close>

definition ended :: "state \<Rightarrow> state" where
  "ended s = snd (end_job s)"

lemma end_job_Some: "ctx_current_job s = Some r \<Longrightarrow> end_job s = (None, ended s)"
  by (simp add: ended_def end_job_def)

lemma ended_fields:
  "job_queue (ended s) = job_queue s"
  "jobs (ended s) = jobs s"
  "completed_jobs (ended s) = completed_jobs s"
  "iteration_results (ended s) = iteration_results s"
  "job_iteration_counts (ended s) = job_iteration_counts s"
  "next_ref (ended s) = next_ref s"
  "tick (ended s) = tick s"
  by (simp_all add: ended_def end_job_def split: option.splits)


lemma popped_fields [simp]:
  "ctx_current_job (popped cfg job s) = ctx_current_job s"
  "job_iteration_counts (popped cfg job s) = job_iteration_counts s"
  "aborted (popped cfg job s) = aborted s"
  "trace (popped cfg job s) = trace s"
  "tick (popped cfg job s) = tick s"
  "next_ref (popped cfg job s) = next_ref s"
  "completed_jobs (popped cfg job s) = completed_jobs s"
  "iteration_results (popped cfg job s) = iteration_results s @ [job]"
  "job_queue (popped cfg job s) = tl (job_queue s)"
  "spec (jobs (popped cfg job s) x) = spec (jobs s x)"
  "retry (jobs (popped cfg job s) x) = retry (jobs s x)"
  "status (result (jobs (popped cfg job s) x)) = status (result (jobs s x))"
  by (simp_all add: popped_def)

lemma finalized_fields:
  "ctx_current_job (finalized cfg job s) = ctx_current_job s"
  "job_iteration_counts (finalized cfg job s) = job_iteration_counts s"
  "aborted (finalized cfg job s) = aborted s"
  "trace (finalized cfg job s) = trace s"
  "tick (finalized cfg job s) = tick s"
  "completed_jobs (finalized cfg job s) = completed_jobs s @ [job]"
  "iteration_results (finalized cfg job s) = iteration_results s @ [job]"
  "job_queue (finalized cfg job s)
     = (if retried cfg s job then [fresh (popped cfg job s)] else []) @ tl (job_queue s)"
  by (simp_all add: finalized_def)

lemma finalized_jobs:
  "x \<noteq> fresh (popped cfg job s) \<Longrightarrow>
     spec (jobs (finalized cfg job s) x) = spec (jobs s x)
     \<and> retry (jobs (finalized cfg job s) x) = retry (jobs s x)
     \<and> status (result (jobs (finalized cfg job s) x)) = status (result (jobs s x))"
  by (simp add: finalized_def)

lemma finalized_fresh:
  "retried cfg s job \<Longrightarrow>
     spec (jobs (finalized cfg job s) (fresh (popped cfg job s))) = spec (jobs s job)
     \<and> retry (jobs (finalized cfg job s) (fresh (popped cfg job s))) = retry (jobs s job) + 1"
  by (simp add: finalized_def new_RunnerJob_def)

lemma job_turn_eq:
  assumes q: "job_queue s = job # rest" and a: "job_attempt env cfg s = (r, s1)"
  shows "job_turn env cfg s = (r, ended (finalized cfg job s1))"
proof -
  from job_attempt_frame [of s env cfg] a q have q1: "job_queue s1 = job # rest"
    by (simp add: same_frame_def)
  from job_attempt_ctx [OF q, of env cfg] a have "ctx_current_job s1 = Some job" by simp
  then have "ctx_current_job (finalized cfg job s1) = Some job"
    by (simp add: finalized_fields)
  then have "finalize_job cfg s1 = (None, ended (finalized cfg job s1))"
    by (simp add: finalize_job_eq [OF q1] end_job_Some)
  then show ?thesis using a by (simp add: job_turn_def try_finally_def)
qed

lemma next_job_facts:
  assumes "next_job env cfg job s = (rn, sn)"
  shows "same_frame s sn" and "ctx_current_job sn = Some job"
    and "job_iteration_counts sn
           = increment (job_iteration_counts s) (spec_id (spec_of cfg (spec (jobs s job))))"
    and "no_marker (trace s) sn"
    and "aborted s \<Longrightarrow> rn = None \<and> trace sn = trace s"
proof -
  have "same_frame s (snd (next_job env cfg job s))"
    by (rule maintainsD [OF next_job_maintains [OF same_frame_stable] same_frame_refl])
  with assms show "same_frame s sn" by simp
  have "no_marker (trace s) (snd (next_job env cfg job s))"
    by (rule maintainsD [OF next_job_maintains [OF no_marker_stable] no_marker_refl])
  with assms show "no_marker (trace s) sn" by simp
  have "same_ctx (started cfg job s) (snd (next_job_rest env cfg job (started cfg job s)))"
    by (rule maintainsD [OF next_job_rest_maintains [OF same_ctx_stable] same_ctx_refl])
  with assms show "ctx_current_job sn = Some job"
    and "job_iteration_counts sn
           = increment (job_iteration_counts s) (spec_id (spec_of cfg (spec (jobs s job))))"
    by (simp_all add: next_job_eq same_ctx_def)
  show "rn = None \<and> trace sn = trace s" if "aborted s"
    using assms that
    by (auto simp: next_job_eq next_job_rest_def cond_def modify_def seq_def skip_def)
qed

lemma skip_turn_eq:
  assumes q: "job_queue s = job # rest" and n: "next_job env cfg job s = (rn, sn)"
  shows "skip_turn env cfg st s =
           (case rn of
              Some e \<Rightarrow> (Some e, sn)
            | None \<Rightarrow> (None, ended (finalized cfg job (write_status job st sn))))"
proof (cases rn)
  case (Some e)
  with q n show ?thesis by (simp add: skip_turn_def seq_def with_current_job_def)
next
  case None
  from next_job_facts(1) [OF n] q have qn: "job_queue sn = job # rest"
    by (simp add: same_frame_def)
  let ?s2 = "write_status job st sn"
  have q2: "job_queue ?s2 = job # rest" using qn by simp
  from next_job_facts(2) [OF n] have "ctx_current_job (finalized cfg job ?s2) = Some job"
    by (simp add: finalized_fields)
  then have "finalize_job cfg ?s2 = (None, ended (finalized cfg job ?s2))"
    by (simp add: finalize_job_eq [OF q2] end_job_Some)
  with None q n qn show ?thesis
    by (simp add: skip_turn_def seq_def with_current_job_def set_status_head)
qed

subsection \<open>A rule for the loops\<close>

lemma job_loop_Nil: "job_queue s = [] \<Longrightarrow> job_loop env cfg s = (None, s)"
  by (simp add: job_loop.simps)

lemma job_loop_Cons:
  "job_queue s \<noteq> [] \<Longrightarrow>
     job_loop env cfg s =
       (case job_turn env cfg s of
          (None, s1) \<Rightarrow> job_loop env cfg s1
        | (Some e, s1) \<Rightarrow> (Some e, s1))"
  by (simp add: job_loop.simps)

lemma skip_remaining_Nil: "job_queue s = [] \<Longrightarrow> skip_remaining env cfg st s = (None, s)"
  by (simp add: skip_remaining.simps)

lemma skip_remaining_Cons:
  "job_queue s \<noteq> [] \<Longrightarrow>
     skip_remaining env cfg st s =
       (case skip_turn env cfg st s of
          (None, s1) \<Rightarrow> skip_remaining env cfg st s1
        | (Some e, s1) \<Rightarrow> (Some e, s1))"
  by (simp add: skip_remaining.simps)

text \<open>
  A rule for both loops: if a turn that returns keeps \<open>I\<close>, and one that raises \<open>e\<close>
  leaves \<open>E e\<close>, then so does the loop, and it returns only with the queue empty.
\<close>

definition turn_ok :: "(state \<Rightarrow> bool) \<Rightarrow> (exn \<Rightarrow> state \<Rightarrow> bool) \<Rightarrow> action \<Rightarrow> bool" where
  "turn_ok I E turn \<longleftrightarrow>
     (\<forall>s. I s \<and> job_queue s \<noteq> [] \<longrightarrow>
        (case turn s of (None, s1) \<Rightarrow> I s1 | (Some e, s1) \<Rightarrow> E e s1))"

lemma turn_okD:
  "turn_ok I E turn \<Longrightarrow> I s \<Longrightarrow> job_queue s \<noteq> [] \<Longrightarrow> turn s = (r, s1) \<Longrightarrow>
     (case r of None \<Rightarrow> I s1 | Some e \<Rightarrow> E e s1)"
  by (auto simp: turn_ok_def split: option.splits)

lemma job_loop_rule:
  assumes "turn_ok I E (job_turn env cfg)" and "I s"
  shows "case job_loop env cfg s of
           (None, s') \<Rightarrow> I s' \<and> job_queue s' = []
         | (Some e, s') \<Rightarrow> E e s'"
  using assms
proof (induction env cfg s rule: job_loop.induct)
  case (1 env cfg s)
  show ?case
  proof (cases "job_queue s = []")
    case True
    with 1 show ?thesis by (simp add: job_loop_Nil)
  next
    case False
    obtain r s1 where t: "job_turn env cfg s = (r, s1)" by (cases "job_turn env cfg s")
    note ok = turn_okD [OF "1.prems" False t]
    show ?thesis
    proof (cases r)
      case None
      with ok have "I s1" by simp
      from "1.IH" [OF False t [symmetric] _ "1.prems"(1) this] None
      show ?thesis using t False by (simp add: job_loop_Cons)
    next
      case (Some e)
      with ok t False show ?thesis by (simp add: job_loop_Cons)
    qed
  qed
qed

lemma skip_remaining_rule:
  assumes "turn_ok I E (skip_turn env cfg st)" and "I s"
  shows "case skip_remaining env cfg st s of
           (None, s') \<Rightarrow> I s' \<and> job_queue s' = []
         | (Some e, s') \<Rightarrow> E e s'"
  using assms
proof (induction env cfg st s rule: skip_remaining.induct)
  case (1 env cfg st s)
  show ?case
  proof (cases "job_queue s = []")
    case True
    with 1 show ?thesis by (simp add: skip_remaining_Nil)
  next
    case False
    obtain r s1 where t: "skip_turn env cfg st s = (r, s1)" by (cases "skip_turn env cfg st s")
    note ok = turn_okD [OF "1.prems" False t]
    show ?thesis
    proof (cases r)
      case None
      with ok have "I s1" by simp
      from "1.IH" [OF False t [symmetric] _ "1.prems"(1) this] None
      show ?thesis using t False by (simp add: skip_remaining_Cons)
    next
      case (Some e)
      with ok t False show ?thesis by (simp add: skip_remaining_Cons)
    qed
  qed
qed


subsection \<open>Skipping through the queue\<close>








subsection \<open>The rest of \<open>run\<close>\<close>





















subsection \<open>Evaluating concrete runs\<close>

lemmas control_defs = skip_def raise_def modify_def seq_def cond_def read_def cond_prop_def
  for_each_def try_except_def try_except_else_def try_finally_def send_def call_def
  with_current_job_def signal_wrap_def

lemmas runner_defs = handle_errors_def on_error_def record_error_def take_screenshot_def
  set_status_def add_event_def status_is_def disable_spec_def write_status_def write_event_def
  boot_def reboot_device_def flash_device_def MAX_REBOOT_ATTEMPTS_def
  run_workload_iteration_def init_job_def reboot_decision_def will_change_or_disabled_def
  run_job_def insert_retry_job_def finalize_job_def job_failed_def job_body_def job_attempt_def
  job_turn_def skip_turn_def run_jobs_def if_check_failures_def connect_to_device_def
  initialize_run_def finalize_run_def process_results_def run_epilogue_def run_def
  spec_changed_def spec_will_change_def changed_def Runner_current_job_def
  Runner_previous_job_def Runner_next_job_def job_spec_id_def
  next_job_def end_job_def current_iteration_def outdir_name_def set_result_fields_def
  initialize_def result_statuses_def
  job_loop_Nil job_loop_Cons skip_remaining_Nil skip_remaining_Cons

lemmas example_defs = initial_state_def example_config_def example_specs_def example_spec_def
  RunnerJob_init_def fresh_def referenced_def flatten_present_def Let_def new_RunnerJob_def
  job_specs_def numeral_2_eq_2 quiet_env_def izip_longest_done izip_longest_step






subsection \<open>An interrupt\<close>



subsection \<open>The accounting of the execution context\<close>


















subsection \<open>Retries\<close>

text \<open>
  What a spec can still add to \<open>completed_jobs\<close>: a queued job with retry count \<open>k\<close>
  stands for itself and for at most \<open>max_retries - k\<close> retries of it.
\<close>

definition completed_of :: "nat \<Rightarrow> state \<Rightarrow> nat" where
  "completed_of sp s = length (filter (\<lambda>r. spec (jobs s r) = sp) (completed_jobs s))"

definition allowance :: "config \<Rightarrow> nat \<Rightarrow> RunnerJob \<Rightarrow> nat" where
  "allowance cfg sp j = (if spec j = sp then Suc (nat (max_retries cfg - retry j)) else 0)"

definition spec_load :: "config \<Rightarrow> nat \<Rightarrow> state \<Rightarrow> nat" where
  "spec_load cfg sp s =
     completed_of sp s + sum_list (map (\<lambda>r. allowance cfg sp (jobs s r)) (job_queue s))"

lemma completed_le_load: "completed_of sp s \<le> spec_load cfg sp s"
  by (simp add: spec_load_def)

lemma load_cong:
  assumes "job_queue s = job_queue s0" and "completed_jobs s = completed_jobs s0"
    and "\<And>r. spec (jobs s r) = spec (jobs s0 r) \<and> retry (jobs s r) = retry (jobs s0 r)"
  shows "spec_load cfg sp s = spec_load cfg sp s0"
proof -
  have "allowance cfg sp (jobs s r) = allowance cfg sp (jobs s0 r)" for r
    using assms(3) [of r] by (simp add: allowance_def)
  then show ?thesis using assms by (simp add: spec_load_def completed_of_def)
qed

lemma same_frame_load: "same_frame s0 s \<Longrightarrow> spec_load cfg sp s = spec_load cfg sp s0"
  by (rule load_cong) (simp_all add: same_frame_def)

lemma write_status_load [simp]: "spec_load cfg sp (write_status r st s) = spec_load cfg sp s"
  by (rule load_cong) simp_all

lemma ended_load [simp]: "spec_load cfg sp (ended s) = spec_load cfg sp s"
  by (rule load_cong) (simp_all add: ended_fields)

lemma fresh_popped_unused:
  assumes "job_queue s = job # rest"
  shows "fresh (popped cfg job s) \<notin> set (job_queue s) \<union> set (completed_jobs s)
           \<union> set (iteration_results s)"
    and "next_ref s \<le> fresh (popped cfg job s)"
proof -
  have "r < fresh (popped cfg job s)"
    if "r \<in> set (job_queue s) \<union> set (completed_jobs s) \<union> set (iteration_results s)" for r
    using that assms by (intro fresh_gt) (auto simp: referenced_def popped_def)
  then show "fresh (popped cfg job s) \<notin> set (job_queue s) \<union> set (completed_jobs s)
           \<union> set (iteration_results s)" by blast
  show "next_ref s \<le> fresh (popped cfg job s)"
    using fresh_ge [of "popped cfg job s"] by simp
qed

lemma finalized_load:
  assumes q: "job_queue s = job # rest"
  shows "spec_load cfg sp (finalized cfg job s) \<le> spec_load cfg sp s"
proof -
  let ?f = "fresh (popped cfg job s)"
  let ?s' = "finalized cfg job s"
  from fresh_popped_unused(1) [OF q, where cfg = cfg]
  have nf: "?f \<notin> set rest" "?f \<noteq> job" "?f \<notin> set (completed_jobs s)"
    using q by auto
  have same: "spec (jobs ?s' x) = spec (jobs s x) \<and> retry (jobs ?s' x) = retry (jobs s x)"
    if "x \<noteq> ?f" for x
    using finalized_jobs [OF that] by simp
  have c: "filter (\<lambda>r. spec (jobs ?s' r) = sp) (completed_jobs s @ [job])
             = filter (\<lambda>r. spec (jobs s r) = sp) (completed_jobs s @ [job])"
  proof (rule filter_cong [OF refl])
    fix x assume "x \<in> set (completed_jobs s @ [job])"
    then have "x \<noteq> ?f" using nf by auto
    from same [OF this] show "(spec (jobs ?s' x) = sp) = (spec (jobs s x) = sp)" by simp
  qed
  have r: "map (\<lambda>r. allowance cfg sp (jobs ?s' r)) rest
             = map (\<lambda>r. allowance cfg sp (jobs s r)) rest"
  proof (rule map_cong [OF refl])
    fix x assume "x \<in> set rest"
    then have "x \<noteq> ?f" using nf by auto
    from same [OF this] show "allowance cfg sp (jobs ?s' x) = allowance cfg sp (jobs s x)"
      by (simp add: allowance_def)
  qed
  define d :: nat where "d = (if spec (jobs s job) = sp then 1 else 0)"
  define old_rest where "old_rest = sum_list (map (\<lambda>r. allowance cfg sp (jobs s r)) rest)"
  have c': "completed_of sp ?s' = completed_of sp s + d"
    unfolding completed_of_def finalized_fields c by (simp add: d_def)
  have r': "sum_list (map (\<lambda>r. allowance cfg sp (jobs ?s' r)) rest) = old_rest"
    unfolding old_rest_def using r by (simp only:)
  have l: "spec_load cfg sp s = completed_of sp s + (allowance cfg sp (jobs s job) + old_rest)"
    using q by (simp add: spec_load_def old_rest_def)
  show ?thesis
  proof (cases "retried cfg s job")
    case True
    from finalized_fresh [OF True]
    have "allowance cfg sp (jobs ?s' ?f) + d = allowance cfg sp (jobs s job)"
      using True by (auto simp: allowance_def retried_def d_def)
    moreover have "spec_load cfg sp ?s'
        = completed_of sp ?s' + (allowance cfg sp (jobs ?s' ?f) + old_rest)"
      using True q r' by (simp add: spec_load_def finalized_fields)
    ultimately show ?thesis using c' l by linarith
  next
    case False
    have "d \<le> allowance cfg sp (jobs s job)"
      by (simp add: allowance_def d_def)
    moreover have "spec_load cfg sp ?s' = completed_of sp ?s' + old_rest"
      using False q r' by (simp add: spec_load_def finalized_fields)
    ultimately show ?thesis using c' l by linarith
  qed
qed

lemma job_turn_load:
  assumes "job_queue s \<noteq> []"
  shows "spec_load cfg sp (snd (job_turn env cfg s)) \<le> spec_load cfg sp s"
proof -
  from assms obtain job rest where q: "job_queue s = job # rest"
    by (cases "job_queue s") auto
  obtain r s1 where a: "job_attempt env cfg s = (r, s1)" by (cases "job_attempt env cfg s")
  from job_attempt_frame [of s env cfg] a have fr: "same_frame s s1" by simp
  then have q1: "job_queue s1 = job # rest" using q by (simp add: same_frame_def)
  from finalized_load [OF q1, where cfg = cfg and sp = sp]
    same_frame_load [OF fr, where cfg = cfg and sp = sp]
  show ?thesis by (simp add: job_turn_eq [OF q a])
qed

lemma skip_turn_load:
  assumes "job_queue s \<noteq> []"
  shows "spec_load cfg sp (snd (skip_turn env cfg st s)) \<le> spec_load cfg sp s"
proof -
  from assms obtain job rest where q: "job_queue s = job # rest"
    by (cases "job_queue s") auto
  obtain rn sn where n: "next_job env cfg job s = (rn, sn)" by (cases "next_job env cfg job s")
  note fr = next_job_facts(1) [OF n]
  then have "job_queue (write_status job st sn) = job # rest"
    using q by (simp add: same_frame_def write_status_def)
  from finalized_load [OF this, where cfg = cfg and sp = sp]
    same_frame_load [OF fr, where cfg = cfg and sp = sp]
  show ?thesis by (cases rn) (simp_all add: skip_turn_eq [OF q n])
qed

definition within :: "config \<Rightarrow> nat \<Rightarrow> nat \<Rightarrow> state \<Rightarrow> bool" where
  "within cfg sp n s \<longleftrightarrow> spec_load cfg sp s \<le> n"

lemma within_job_turn: "turn_ok (within cfg sp n) (\<lambda>e. within cfg sp n) (job_turn env cfg)"
proof -
  have "within cfg sp n (snd (job_turn env cfg s))" if "within cfg sp n s" "job_queue s \<noteq> []" for s
    using job_turn_load [OF that(2), where cfg = cfg and sp = sp and env = env] that(1) by (simp add: within_def)
  then show ?thesis
    by (auto simp: turn_ok_def split: prod.splits option.splits) (metis snd_conv)+
qed

lemma within_skip_turn:
  "turn_ok (within cfg sp n) (\<lambda>e. within cfg sp n) (skip_turn env cfg st)"
proof -
  have "within cfg sp n (snd (skip_turn env cfg st s))"
    if "within cfg sp n s" "job_queue s \<noteq> []" for s
    using skip_turn_load [OF that(2), where cfg = cfg and sp = sp and env = env and st = st] that(1) by (simp add: within_def)
  then show ?thesis
    by (auto simp: turn_ok_def split: prod.splits option.splits) (metis snd_conv)+
qed

lemma within_job_loop: "maintains (within cfg sp n) (job_loop env cfg)"
  unfolding maintains_def
proof (intro allI impI)
  fix s assume "within cfg sp n s"
  from job_loop_rule [OF within_job_turn this, of env]
  show "within cfg sp n (snd (job_loop env cfg s))"
    by (auto split: prod.splits option.splits)
qed

lemma within_skip_remaining: "maintains (within cfg sp n) (skip_remaining env cfg st)"
  unfolding maintains_def
proof (intro allI impI)
  fix s assume "within cfg sp n s"
  from skip_remaining_rule [OF within_skip_turn this, of env st]
  show "within cfg sp n (snd (skip_remaining env cfg st s))"
    by (auto split: prod.splits option.splits)
qed

lemma write_event_load [simp]: "spec_load cfg sp (write_event r e s) = spec_load cfg sp s"
  by (rule load_cong) simp_all

lemma within_body_stable: "body_stable UNIV (within cfg sp n)"
  by (simp add: body_stable_def within_def)
     (simp add: spec_load_def completed_of_def)

lemma within_run_jobs: "maintains (within cfg sp n) (run_jobs env cfg)"
  unfolding run_jobs_def
  by (intro maintains_intros maintains_modify within_job_loop within_skip_remaining)
     (simp add: within_def spec_load_def completed_of_def)

lemma initialize_run_maintains:
  "body_stable sts I \<Longrightarrow> FAILED \<in> sts \<Longrightarrow> maintains I (initialize_run env cfg)"
  unfolding initialize_run_def connect_to_device_def if_check_failures_def
  by (intro maintains_intros stable_intros signal_wrap_maintains reboot_device_maintains;
      assumption)

lemma run_epilogue_maintains:
  assumes "body_stable sts I" and "FAILED \<in> sts"
    and "\<And>s. I s \<Longrightarrow> I (s\<lparr>non_iteration_errors := True\<rparr>)"
  shows "maintains I (run_epilogue env cfg)"
proof -
  have m: "maintains I (modify (\<lambda>s. s\<lparr>non_iteration_errors := True\<rparr>))"
    by (rule maintains_modify) (rule assms(3))
  show ?thesis
    unfolding run_epilogue_def finalize_run_def process_results_def if_check_failures_def
    using assms(1,2)
    by - (intro maintains_intros stable_intros signal_wrap_maintains handle_errors_maintains m;
          assumption)
qed

lemma within_run: "maintains (within cfg sp n) (run env cfg)"
  unfolding run_def
  by (intro maintains_intros stable_send [OF within_body_stable]
        initialize_run_maintains [OF within_body_stable]
        run_epilogue_maintains [OF within_body_stable] within_run_jobs)
     (simp_all add: within_def spec_load_def completed_of_def)

subsection \<open>The load of the initial queue\<close>

lemma count_heads_tails:
  "count_list (concat (map (\<lambda>j. case j of None \<Rightarrow> [] | Some x \<Rightarrow> [x])
       (map (\<lambda>xs. case xs of [] \<Rightarrow> None | x # _ \<Rightarrow> Some x) xss))) x
     + count_list (concat (map tl xss)) x
   = count_list (concat xss) x"
proof (induction xss)
  case Nil
  then show ?case by simp
next
  case (Cons xs xss)
  then show ?case by (cases xs) auto
qed

lemma count_flatten_izip:
  "count_list (flatten_present (izip_longest xss)) x = count_list (concat xss) x"
proof (induction xss rule: izip_longest.induct)
  case (1 xss)
  show ?case
  proof (cases "list_all (\<lambda>xs. xs = []) xss")
    case True
    then have "concat xss = []" by (simp add: list_all_iff)
    then show ?thesis by (simp only: izip_longest_done [OF True] flatten_present_Nil)
  next
    case False
    from 1 [OF False] count_heads_tails [of xss x] show ?thesis
      by (simp add: izip_longest_step [OF False] flatten_present_Cons)
  qed
qed

lemma sum_list_count_cong:
  fixes h :: "'a \<Rightarrow> nat"
  assumes "\<And>x. count_list xs x = count_list ys x"
  shows "sum_list (map h xs) = sum_list (map h ys)"
proof -
  have "set xs = set ys"
  proof (rule set_eqI)
    fix x
    have "x \<in> set xs \<longleftrightarrow> count_list xs x \<noteq> 0" by (simp add: count_list_0_iff)
    also have "\<dots> \<longleftrightarrow> count_list ys x \<noteq> 0" by (simp add: assms)
    also have "\<dots> \<longleftrightarrow> x \<in> set ys" by (simp add: count_list_0_iff)
    finally show "x \<in> set xs \<longleftrightarrow> x \<in> set ys" .
  qed
  then show ?thesis by (simp add: sum_list_map_eq_sum_count assms)
qed

lemma count_section_append:
  "count_list (concat (map snd (section_append kvs k sp))) x
     = count_list (concat (map snd kvs)) x + (if sp = x then 1 else 0)"
  by (induction kvs k sp rule: section_append.induct) auto

lemma count_group_sections:
  "count_list (concat (map snd (group_sections cfg sps kvs))) x
     = count_list (concat (map snd kvs)) x + count_list sps x"
  by (induction cfg sps kvs rule: group_sections.induct) (auto simp: count_section_append)

lemma RunnerJob_init_frame:
  "RunnerJob_init sp rt s = (r, s1) \<Longrightarrow> completed_jobs s1 = completed_jobs s"
  by (auto simp: RunnerJob_init_def Let_def)

lemma new_jobs_frame: "new_jobs sp n s = (rs, s2) \<Longrightarrow> completed_jobs s2 = completed_jobs s"
proof (induction n arbitrary: s rs s2)
  case 0
  then show ?case by simp
next
  case (Suc n)
  then show ?case
    by (auto split: prod.splits dest!: RunnerJob_init_frame)
qed

lemma new_job_lists_frame:
  "new_job_lists cfg specs s = (rss, s2) \<Longrightarrow> completed_jobs s2 = completed_jobs s"
proof (induction specs arbitrary: s rss s2)
  case Nil
  then show ?case by simp
next
  case (Cons sp sps)
  then show ?case
    by (auto split: prod.splits dest!: new_jobs_frame)
qed

text \<open>The jobs of the queue: as many new jobs of each spec as it has iterations.\<close>

definition iterations :: "config \<Rightarrow> nat \<Rightarrow> nat" where
  "iterations cfg sp = nat (number_of_iterations (spec_of cfg sp))"

lemma sum_new_jobs:
  "sum_list (map (allowance cfg sp)
      (concat (map (\<lambda>x. replicate (iterations cfg x) (new_RunnerJob x 0)) specs)))
   = count_list specs sp * iterations cfg sp * Suc (nat (max_retries cfg))"
proof (induction specs)
  case Nil
  then show ?case by simp
next
  case (Cons x specs)
  have "sum_list (map (allowance cfg sp) (replicate n (new_RunnerJob x 0)))
          = (if x = sp then n * Suc (nat (max_retries cfg)) else 0)" for n
    by (induction n) (simp_all add: allowance_def new_RunnerJob_def)
  with Cons show ?case by (simp add: algebra_simps)
qed

lemma new_job_lists_load:
  assumes n: "new_job_lists cfg specs s = (jbs, s1)"
    and p: "\<And>x. count_list q x = count_list (concat jbs) x"
    and c: "completed_jobs s = []"
  shows "spec_load cfg sp (s1\<lparr>job_queue := q\<rparr>)
           = count_list specs sp * iterations cfg sp * Suc (nat (max_retries cfg))"
proof -
  from new_job_lists_ok [OF n]
  have m: "map (map (\<lambda>r. jobs s1 r)) jbs
         = map (\<lambda>x. replicate (iterations cfg x) (new_RunnerJob x 0)) specs"
    by (simp add: iterations_def)
  have "sum_list (map (\<lambda>r. allowance cfg sp (jobs s1 r)) q)
          = sum_list (map (\<lambda>r. allowance cfg sp (jobs s1 r)) (concat jbs))"
    by (rule sum_list_count_cong) (rule p)
  also have "map (\<lambda>r. allowance cfg sp (jobs s1 r)) (concat jbs)
          = map (allowance cfg sp) (concat (map (map (\<lambda>r. jobs s1 r)) jbs))"
    by (simp add: map_concat comp_def)
  also have "sum_list \<dots> = count_list specs sp * iterations cfg sp * Suc (nat (max_retries cfg))"
    unfolding m by (rule sum_new_jobs)
  finally show ?thesis
    using new_job_lists_frame [OF n] c by (simp add: spec_load_def completed_of_def)
qed

lemma init_queue_load:
  assumes "\<And>xs x. count_list (shuffle xs) x = count_list xs x"
    and "completed_jobs s = []"
  shows "spec_load cfg sp (init_queue rc shuffle cfg specs s)
           = count_list specs sp * iterations cfg sp * Suc (nat (max_retries cfg))"
proof (cases rc)
  case BySpecRunner
  obtain jbs s1 where n: "new_job_lists cfg specs s = (jbs, s1)"
    by (cases "new_job_lists cfg specs s")
  from new_job_lists_load [OF n _ assms(2), of "concat jbs"] BySpecRunner n
  show ?thesis by simp
next
  case BySectionRunner
  obtain jbs s1 where n: "new_job_lists cfg specs s = (jbs, s1)"
    by (cases "new_job_lists cfg specs s")
  from new_job_lists_load [OF n count_flatten_izip assms(2)] BySectionRunner n
  show ?thesis by simp
next
  case ByIterationRunner
  let ?specs = "flatten_present (izip_longest (map snd (group_sections cfg specs [])))"
  obtain jbs s1 where n: "new_job_lists cfg ?specs s = (jbs, s1)"
    by (cases "new_job_lists cfg ?specs s")
  have "count_list ?specs sp = count_list specs sp"
    by (simp add: count_flatten_izip count_group_sections)
  with new_job_lists_load [OF n count_flatten_izip assms(2), of sp] ByIterationRunner n
  show ?thesis by (simp add: Let_def)
next
  case RandomRunner
  obtain jbs s1 where n: "new_job_lists cfg specs s = (jbs, s1)"
    by (cases "new_job_lists cfg specs s")
  from new_job_lists_load [OF n assms(1) assms(2)] RandomRunner n
  show ?thesis by simp
qed

text \<open>
  C4. \<open>_finalize_job\<close> with the job \<open>job\<close> at the head of the queue appends it to
  \<open>completed_jobs\<close>. If its status is in \<open>retry_on_status\<close> and its retry count is less
  than \<open>max_retries\<close>, the queue becomes the rest with a new object at index 0, one that
  nothing referred to, constructed as \<open>RunnerJob(job.spec, job.retry + 1)\<close>; otherwise
  the queue becomes the rest, no object is constructed and no other job changes.
  Consequently the number of completed jobs of a spec never exceeds its load: the load
  bounds the number, no turn of the job loop or of a draining loop increases it, and
  neither does \<open>run\<close> as a whole. The queue built by \<open>init_queue\<close> of any of the four
  classes (for the \<open>RandomRunner\<close>, with a shuffle that permutes) has the load
  \<open>N * (max_retries + 1)\<close> for a spec of \<open>N\<close> iterations (times the number of its
  occurrences in \<open>specs\<close>, which is 1; a negative \<open>max_retries\<close> counts as 0), so
  that is the bound on the completed jobs of the spec at the end of \<open>run\<close>.
\<close>

theorem retry_policy:
  "(job_queue s = job # rest \<longrightarrow>
      completed_jobs (snd (finalize_job cfg s)) = completed_jobs s @ [job]
      \<and> (status (result (jobs s job)) \<in> set (retry_on_status cfg)
           \<and> retry (jobs s job) < max_retries cfg \<longrightarrow>
          (\<exists>f. job_queue (snd (finalize_job cfg s)) = f # rest
             \<and> f \<notin> set (job_queue s) \<union> set (completed_jobs s) \<union> set (iteration_results s)
             \<and> next_ref s \<le> f
             \<and> jobs (snd (finalize_job cfg s)) f
                 = new_RunnerJob (spec (jobs s job)) (retry (jobs s job) + 1)))
      \<and> (\<not> (status (result (jobs s job)) \<in> set (retry_on_status cfg)
              \<and> retry (jobs s job) < max_retries cfg) \<longrightarrow>
          job_queue (snd (finalize_job cfg s)) = rest
          \<and> next_ref (snd (finalize_job cfg s)) = next_ref s
          \<and> (\<forall>x. x \<noteq> job \<longrightarrow> jobs (snd (finalize_job cfg s)) x = jobs s x)))
   \<and> completed_of sp s \<le> spec_load cfg sp s
   \<and> (job_queue s \<noteq> [] \<longrightarrow>
        spec_load cfg sp (snd (job_turn env cfg s)) \<le> spec_load cfg sp s
        \<and> spec_load cfg sp (snd (skip_turn env cfg st s)) \<le> spec_load cfg sp s)
   \<and> spec_load cfg sp (snd (run_jobs env cfg s)) \<le> spec_load cfg sp s
   \<and> spec_load cfg sp (snd (run env cfg s)) \<le> spec_load cfg sp s
   \<and> ((\<forall>xs x. count_list (shuffle xs) x = count_list xs x) \<and> completed_jobs s = [] \<longrightarrow>
        spec_load cfg sp (init_queue rc shuffle cfg specs s)
          = count_list specs sp * nat (number_of_iterations (spec_of cfg sp))
              * (nat (max_retries cfg) + 1)
        \<and> completed_of sp (snd (run env cfg (init_queue rc shuffle cfg specs s)))
          \<le> count_list specs sp * nat (number_of_iterations (spec_of cfg sp))
              * (nat (max_retries cfg) + 1))"
proof -
  have a: "completed_jobs (snd (finalize_job cfg s)) = completed_jobs s @ [job]
      \<and> (status (result (jobs s job)) \<in> set (retry_on_status cfg)
           \<and> retry (jobs s job) < max_retries cfg \<longrightarrow>
          (\<exists>f. job_queue (snd (finalize_job cfg s)) = f # rest
             \<and> f \<notin> set (job_queue s) \<union> set (completed_jobs s) \<union> set (iteration_results s)
             \<and> next_ref s \<le> f
             \<and> jobs (snd (finalize_job cfg s)) f
                 = new_RunnerJob (spec (jobs s job)) (retry (jobs s job) + 1)))
      \<and> (\<not> (status (result (jobs s job)) \<in> set (retry_on_status cfg)
              \<and> retry (jobs s job) < max_retries cfg) \<longrightarrow>
          job_queue (snd (finalize_job cfg s)) = rest
          \<and> next_ref (snd (finalize_job cfg s)) = next_ref s
          \<and> (\<forall>x. x \<noteq> job \<longrightarrow> jobs (snd (finalize_job cfg s)) x = jobs s x))"
    if q: "job_queue s = job # rest"
  proof -
    let ?s' = "snd (finalize_job cfg s)"
    have e: "?s' = ended (finalized cfg job s)"
      by (simp add: finalize_job_eq [OF q] ended_def)
    have 1: "completed_jobs ?s' = completed_jobs s @ [job]"
      by (simp add: e ended_fields finalized_fields)
    have 2: "\<exists>f. job_queue ?s' = f # rest
             \<and> f \<notin> set (job_queue s) \<union> set (completed_jobs s) \<union> set (iteration_results s)
             \<and> next_ref s \<le> f
             \<and> jobs ?s' f = new_RunnerJob (spec (jobs s job)) (retry (jobs s job) + 1)"
      if "retried cfg s job"
    proof (intro exI conjI)
      show "job_queue ?s' = fresh (popped cfg job s) # rest"
        using that q by (simp add: e ended_fields finalized_fields)
      show "fresh (popped cfg job s)
              \<notin> set (job_queue s) \<union> set (completed_jobs s) \<union> set (iteration_results s)"
        by (rule fresh_popped_unused(1) [OF q])
      show "next_ref s \<le> fresh (popped cfg job s)"
        by (rule fresh_popped_unused(2) [OF q])
      show "jobs ?s' (fresh (popped cfg job s))
              = new_RunnerJob (spec (jobs s job)) (retry (jobs s job) + 1)"
        using that by (simp add: e ended_fields finalized_def)
    qed
    have 3: "job_queue ?s' = rest \<and> next_ref ?s' = next_ref s
             \<and> (\<forall>x. x \<noteq> job \<longrightarrow> jobs ?s' x = jobs s x)"
      if "\<not> retried cfg s job"
      using that q by (simp add: e ended_fields finalized_def popped_def)
    from 1 2 3 show ?thesis unfolding retried_def by blast
  qed
  have b: "spec_load cfg sp (snd (run_jobs env cfg s)) \<le> spec_load cfg sp s"
    using maintainsD [OF within_run_jobs, of cfg sp "spec_load cfg sp s" s env]
    by (simp add: within_def)
  have c: "spec_load cfg sp (snd (run env cfg s')) \<le> spec_load cfg sp s'" for s'
    using maintainsD [OF within_run, of cfg sp "spec_load cfg sp s'" s' env]
    by (simp add: within_def)
  have d: "spec_load cfg sp (init_queue rc shuffle cfg specs s)
          = count_list specs sp * nat (number_of_iterations (spec_of cfg sp))
              * (nat (max_retries cfg) + 1)
        \<and> completed_of sp (snd (run env cfg (init_queue rc shuffle cfg specs s)))
          \<le> count_list specs sp * nat (number_of_iterations (spec_of cfg sp))
              * (nat (max_retries cfg) + 1)"
    if "\<forall>xs x. count_list (shuffle xs) x = count_list xs x" "completed_jobs s = []"
  proof -
    from that have l: "spec_load cfg sp (init_queue rc shuffle cfg specs s)
          = count_list specs sp * nat (number_of_iterations (spec_of cfg sp))
              * (nat (max_retries cfg) + 1)"
      by (simp add: init_queue_load iterations_def)
    moreover have "completed_of sp (snd (run env cfg (init_queue rc shuffle cfg specs s)))
          \<le> spec_load cfg sp (init_queue rc shuffle cfg specs s)"
      using completed_le_load c by (rule order_trans)
    ultimately show ?thesis by simp
  qed
  show ?thesis
    using a b c [of s] d completed_le_load [of sp s cfg]
      job_turn_load [of s cfg sp env] skip_turn_load [of s cfg sp env st]
    by blast
qed

text \<open>
  A configuration with one retry on \<open>FAILED\<close> or \<open>PARTIAL\<close>, an environment in which
  \<open>workload.run\<close> of spec 0 always fails, and the queue of spec 0 alone, whose two jobs
  are the objects 0 and 1.
\<close>

definition retrying_config :: config where
  "retrying_config = example_config\<lparr>retry_on_status := [FAILED, PARTIAL], max_retries := 1\<rparr>"

definition failing_env :: environment where
  "failing_env = quiet_env\<lparr>outcome := (\<lambda>n c. if c = workload_run 0 then Some WAError else None)\<rparr>"

definition retry_queue :: state where
  "retry_queue =
     init_queue BySpecRunner id retrying_config [0]
       (snd (initialize quiet_env (initial_state retrying_config)))"

definition first_failed :: state where
  "first_failed = snd (job_attempt failing_env retrying_config retry_queue)"

lemma first_failed_facts:
  "job_queue first_failed = [0, 1] \<and> status (result (jobs first_failed 0)) = FAILED
   \<and> retry (jobs first_failed 0) = 0 \<and> completed_jobs first_failed = []"
  by (simp add: first_failed_def retry_queue_def retrying_config_def failing_env_def
      control_defs runner_defs example_defs)

text \<open>
  There the bound is attained: both jobs fail and are retried once, and the retries
  fail too (spec, retry count and status of the completed jobs, in order).
\<close>

definition job_summary :: "state \<Rightarrow> nat \<Rightarrow> nat \<times> int \<times> status" where
  "job_summary s r = (spec (jobs s r), retry (jobs s r), status (result (jobs s r)))"

definition completed_summary :: "state \<Rightarrow> (nat \<times> int \<times> status) list" where
  "completed_summary s = map (job_summary s) (completed_jobs s)"

lemma retry_bound_attained:
  "completed_summary (snd (run failing_env retrying_config retry_queue))
     = [(0, 0, FAILED), (0, 1, FAILED), (0, 0, FAILED), (0, 1, FAILED)]"
  by (simp add: completed_summary_def job_summary_def retry_queue_def retrying_config_def
      failing_env_def control_defs runner_defs example_defs)

theorem retry_policy_witness:
  "job_queue first_failed = 0 # [1]
   \<and> status (result (jobs first_failed 0)) \<in> set (retry_on_status retrying_config)
   \<and> retry (jobs first_failed 0) < max_retries retrying_config
   \<and> (\<exists>f. job_queue (snd (finalize_job retrying_config first_failed)) = [f, 1]
        \<and> f \<notin> {0, 1}
        \<and> jobs (snd (finalize_job retrying_config first_failed)) f = new_RunnerJob 0 1)
   \<and> completed_of 0 (snd (run failing_env retrying_config retry_queue)) \<le> 4"
proof -
  have c: "completed_jobs (snd (initialize quiet_env (initial_state retrying_config))) = []"
    by (simp add: retrying_config_def control_defs runner_defs example_defs)
  have s: "spec (jobs first_failed 0) = 0"
    by (simp add: first_failed_def retry_queue_def retrying_config_def failing_env_def
      control_defs runner_defs example_defs)
  have n: "count_list [0::nat] 0 * nat (number_of_iterations (spec_of retrying_config 0))
             * (nat (max_retries retrying_config) + 1) = 4"
    by (simp add: retrying_config_def example_defs)
  have r: "status (result (jobs first_failed 0)) \<in> set (retry_on_status retrying_config)
           \<and> retry (jobs first_failed 0) < max_retries retrying_config"
    using first_failed_facts by (simp add: retrying_config_def)
  from retry_policy [of first_failed 0 "[1]" retrying_config 0 failing_env SKIPPED id
      BySpecRunner "[0]"]
    retry_policy [of "snd (initialize quiet_env (initial_state retrying_config))" 0 "[]"
      retrying_config 0 failing_env SKIPPED id BySpecRunner "[0]"]
    first_failed_facts c s n r
  show ?thesis unfolding retry_queue_def by auto
qed

subsection \<open>A device that does not boot\<close>




























end
